theory Spec2Isabelle
  imports Complex_Main "HOL-Library.Word"
begin

unbundle bit_operations_syntax

section \<open>J1939 identifier decode (j1939\_parser.cpp)\<close>

definition j1939_extract_pgn :: "32 word \<Rightarrow> 32 word" where
  "j1939_extract_pgn can_id =
     (let pdu_format = (ucast (drop_bit 16 can_id AND 0xFF) :: 8 word);
          pdu_specific = (ucast (drop_bit 8 can_id AND 0xFF) :: 8 word);
          data_page = (ucast (drop_bit 24 can_id AND 0x03) :: 8 word)
      in if pdu_format < 240
         then push_bit 16 (ucast data_page :: 32 word) OR push_bit 8 (ucast pdu_format :: 32 word)
         else push_bit 16 (ucast data_page :: 32 word) OR push_bit 8 (ucast pdu_format :: 32 word)
              OR ucast pdu_specific)"

definition j1939_extract_source_address :: "32 word \<Rightarrow> 8 word" where
  "j1939_extract_source_address can_id = ucast (can_id AND 0xFF)"

definition j1939_extract_priority :: "32 word \<Rightarrow> 8 word" where
  "j1939_extract_priority can_id = ucast (drop_bit 26 can_id AND 0x07)"

definition j1939_extract_destination :: "32 word \<Rightarrow> 8 word" where
  "j1939_extract_destination can_id =
     (let pdu_format = (ucast (drop_bit 16 can_id AND 0xFF) :: 8 word)
      in if pdu_format < 240 then ucast (drop_bit 8 can_id AND 0xFF) else 0xFF)"

definition j1939_build_can_id :: "32 word \<Rightarrow> 8 word \<Rightarrow> 8 word \<Rightarrow> 32 word" where
  "j1939_build_can_id pgn source_address priority =
     push_bit 26 (ucast (priority AND 0x07) :: 32 word) OR push_bit 8 pgn OR ucast source_address"



section \<open>Parameter store (data\_manager.h, data\_manager.cpp)\<close>

text \<open>
  C \<open>float\<close> values are modelled as \<open>real\<close>: the store only copies and compares them, and
  the comparisons of the source agree with those on the reals for every finite value (NaN is
  outside the model). \<open>param_id_t\<close> is the integer value of the enum.  An array access of the
  source that goes past the end of the array has no defined behaviour in C; the model returns
  \<open>Inl OutOfBounds\<close> there instead of a value.
\<close>

datatype fault = OutOfBounds

definition DATA_MAX_PARAMETERS :: nat where "DATA_MAX_PARAMETERS = 64"
definition DATA_MAX_CALLBACKS :: nat where "DATA_MAX_CALLBACKS = 8"

definition PARAM_NONE :: nat where "PARAM_NONE = 0"
definition PARAM_ENGINE_SPEED :: nat where "PARAM_ENGINE_SPEED = 1"
definition PARAM_COOLANT_TEMP :: nat where "PARAM_COOLANT_TEMP = 4"
definition PARAM_OIL_PRESSURE :: nat where "PARAM_OIL_PRESSURE = 6"
definition PARAM_BATTERY_VOLTAGE :: nat where "PARAM_BATTERY_VOLTAGE = 130"
definition PARAM_MAX :: nat where "PARAM_MAX = 256"

datatype data_source_t =
  SOURCE_UNKNOWN | SOURCE_J1939 | SOURCE_J1708 | SOURCE_ANALOG
  | SOURCE_COMPUTED | SOURCE_STORED | SOURCE_SIMULATED

record data_parameter_t =
  p_value :: real
  p_prev_value :: real
  p_timestamp_ms :: "32 word"
  p_update_count :: "32 word"
  p_source :: data_source_t
  p_is_valid :: bool

text \<open>A registered callback is a function pointer; \<open>None\<close> is the NULL pointer.\<close>

record data_manager_t =
  parameters :: "data_parameter_t list"
  callbacks :: "nat option list"
  callback_count :: "8 word"
  total_updates :: "32 word"
  dm_initialized :: bool

definition data_manager_init :: data_manager_t where
  "data_manager_init =
     \<lparr> parameters = replicate DATA_MAX_PARAMETERS
          \<lparr> p_value = 0, p_prev_value = 0, p_timestamp_ms = 0, p_update_count = 0,
            p_source = SOURCE_UNKNOWN, p_is_valid = False \<rparr>,
       callbacks = replicate DATA_MAX_CALLBACKS None,
       callback_count = 0,
       total_updates = 0,
       dm_initialized = True \<rparr>"

text \<open>
  \<open>data_manager_update\<close> returns the new store together with the notifications it issued:
  one \<open>(callback, param_id, new value, old value)\<close> for each non-NULL callback among the
  first \<open>callback_count\<close>, in order.  The threshold of the change test is the value of the
  \<open>float\<close> literal \<open>0.001f\<close>, which is 8589935 / 2^33; the difference it is compared
  with is taken over the reals, without the rounding of the \<open>float\<close> subtraction.
\<close>

definition data_manager_update ::
  "data_manager_t \<Rightarrow> nat \<Rightarrow> real \<Rightarrow> data_source_t \<Rightarrow> 32 word
     \<Rightarrow> fault + (data_manager_t \<times> (nat \<times> nat \<times> real \<times> real) list)" where
  "data_manager_update dm param_id val source timestamp_ms =
     (if \<not> dm_initialized dm then Inr (dm, [])
      else if param_id = PARAM_NONE \<or> param_id \<ge> PARAM_MAX then Inr (dm, [])
      else if param_id \<ge> length (parameters dm) then Inl OutOfBounds
      else
        let param = parameters dm ! param_id;
            old_value = p_value param;
            was_valid = p_is_valid param;
            param' = param \<lparr> p_prev_value := p_value param,
                             p_value := val,
                             p_timestamp_ms := timestamp_ms,
                             p_source := source,
                             p_is_valid := True,
                             p_update_count := p_update_count param + 1 \<rparr>;
            dm' = dm \<lparr> parameters := (parameters dm)[param_id := param'],
                       total_updates := total_updates dm + 1 \<rparr>;
            notified =
              (if \<not> was_valid \<or> \<bar>val - old_value\<bar> > 8589935 / 8589934592
               then concat (map (\<lambda>cb. case cb of None \<Rightarrow> []
                                           | Some f \<Rightarrow> [(f, param_id, val, old_value)])
                                (take (unat (callback_count dm)) (callbacks dm)))
               else [])
        in Inr (dm', notified))"

text \<open>
  \<open>data_manager_get\<close>: \<open>Inr None\<close> is the return value \<open>false\<close>, \<open>Inr (Some v)\<close> is \<open>true\<close>
  with \<open>v\<close> written through the (non-NULL) output pointer.
\<close>

definition data_manager_get :: "data_manager_t \<Rightarrow> nat \<Rightarrow> fault + real option" where
  "data_manager_get dm param_id =
     (if \<not> dm_initialized dm then Inr None
      else if param_id = PARAM_NONE \<or> param_id \<ge> PARAM_MAX then Inr None
      else if param_id \<ge> length (parameters dm) then Inl OutOfBounds
      else
        let param = parameters dm ! param_id
        in if \<not> p_is_valid param then Inr None else Inr (Some (p_value param)))"

definition data_manager_get_with_timestamp ::
  "data_manager_t \<Rightarrow> nat \<Rightarrow> fault + (real \<times> 32 word) option" where
  "data_manager_get_with_timestamp dm param_id =
     (if \<not> dm_initialized dm then Inr None
      else if param_id = PARAM_NONE \<or> param_id \<ge> PARAM_MAX then Inr None
      else if param_id \<ge> length (parameters dm) then Inl OutOfBounds
      else
        let param = parameters dm ! param_id
        in if \<not> p_is_valid param then Inr None
           else Inr (Some (p_value param, p_timestamp_ms param)))"

definition data_manager_invalidate :: "data_manager_t \<Rightarrow> nat \<Rightarrow> fault + data_manager_t" where
  "data_manager_invalidate dm param_id =
     (if \<not> dm_initialized dm then Inr dm
      else if param_id = PARAM_NONE \<or> param_id \<ge> PARAM_MAX then Inr dm
      else if param_id \<ge> length (parameters dm) then Inl OutOfBounds
      else Inr (dm \<lparr> parameters :=
                  (parameters dm)[param_id := (parameters dm ! param_id) \<lparr> p_is_valid := False \<rparr>] \<rparr>))"

section \<open>Watch list (watch\_list\_manager.h, watch\_list\_manager.cpp)\<close>

definition WATCH_LIST_MAX_ITEMS :: nat where "WATCH_LIST_MAX_ITEMS = 16"

datatype widget_type_t =
  WIDGET_GAUGE_CIRCULAR | WIDGET_GAUGE_LINEAR | WIDGET_GAUGE_SEMICIRCLE | WIDGET_NUMERIC
  | WIDGET_INDICATOR | WIDGET_TEXT | WIDGET_GRAPH

datatype alert_level_t = ALERT_NONE | ALERT_INFO | ALERT_WARNING | ALERT_CRITICAL

record watch_item_t =
  param_id :: nat
  widget_type :: widget_type_t
  page :: "8 word"
  position :: "8 word"
  decimal_places :: "8 word"
  warn_low :: real
  warn_high :: real
  crit_low :: real
  crit_high :: real
  use_custom_label :: bool
  custom_label :: string
  custom_unit :: string
  gauge_min :: real
  gauge_max :: real
  enabled :: bool
  current_alert :: alert_level_t

text \<open>
  The manager holds a pointer to the parameter store; the store it points to is passed to
  \<open>watch_list_update\<close> as an argument, \<open>None\<close> for the NULL pointer.
\<close>

record watch_list_manager_t =
  items :: "watch_item_t list"
  item_count :: "8 word"
  current_page :: "8 word"
  wl_initialized :: bool

definition check_alert_level :: "watch_item_t \<Rightarrow> real \<Rightarrow> alert_level_t" where
  "check_alert_level item val =
     (if val \<le> crit_low item \<or> val \<ge> crit_high item then ALERT_CRITICAL
      else if val \<le> warn_low item \<or> val \<ge> warn_high item then ALERT_WARNING
      else ALERT_NONE)"

text \<open>The loop of \<open>watch_list_update\<close> over \<open>i = 0 .. item_count - 1\<close>.\<close>

function watch_list_update_loop ::
  "data_manager_t \<Rightarrow> nat \<Rightarrow> nat \<Rightarrow> watch_item_t list \<Rightarrow> fault + watch_item_t list" where
  "watch_list_update_loop dm i n its =
     (if i < n then
        (if i \<ge> length its then Inl OutOfBounds
         else
           let item = its ! i in
           if \<not> enabled item then watch_list_update_loop dm (i + 1) n its
           else
             (case data_manager_get dm (param_id item) of
                Inl e \<Rightarrow> Inl e
              | Inr (Some v) \<Rightarrow>
                  watch_list_update_loop dm (i + 1) n
                    (its[i := item \<lparr> current_alert := check_alert_level item v \<rparr>])
              | Inr None \<Rightarrow>
                  watch_list_update_loop dm (i + 1) n
                    (its[i := item \<lparr> current_alert := ALERT_NONE \<rparr>])))
      else Inr its)"
  by pat_completeness auto
termination
  by (relation "measure (\<lambda>(dm, i, n, its). n - i)") auto

declare watch_list_update_loop.simps [simp del]

definition watch_list_update ::
  "watch_list_manager_t \<Rightarrow> data_manager_t option \<Rightarrow> 32 word \<Rightarrow> fault + watch_list_manager_t" where
  "watch_list_update wlm dm_ptr current_time_ms =
     (if \<not> wl_initialized wlm then Inr wlm
      else case dm_ptr of
        None \<Rightarrow> Inr wlm
      | Some dm \<Rightarrow>
          (case watch_list_update_loop dm 0 (unat (item_count wlm)) (items wlm) of
             Inl e \<Rightarrow> Inl e
           | Inr its \<Rightarrow> Inr (wlm \<lparr> items := its \<rparr>)))"

text \<open>
  The severity rule in the words of the specification: CRITICAL if \<open>v \<le> crit_low\<close> or
  \<open>v \<ge> crit_high\<close>, else WARNING if \<open>v \<le> warn_low\<close> or \<open>v \<ge> warn_high\<close>, else NONE.
\<close>

definition severity_rule :: "real \<Rightarrow> real \<Rightarrow> real \<Rightarrow> real \<Rightarrow> real \<Rightarrow> alert_level_t" where
  "severity_rule v wl wh cl ch =
     (if v \<le> cl \<or> ch \<le> v then ALERT_CRITICAL
      else if v \<le> wl \<or> wh \<le> v then ALERT_WARNING
      else ALERT_NONE)"

text \<open>
  What one pass of the loop of \<open>watch_list_update\<close> makes of a single item, given the store:
  used to state the result of the loop.
\<close>

definition item_after :: "data_manager_t \<Rightarrow> watch_item_t \<Rightarrow> watch_item_t" where
  "item_after dm item =
     (if enabled item
      then item \<lparr> current_alert :=
             (case data_manager_get dm (param_id item) of
                Inr (Some v) \<Rightarrow> check_alert_level item v
              | _ \<Rightarrow> ALERT_NONE) \<rparr>
      else item)"

text \<open>
  Updates applied in arrival order, and the read of value and timestamp that follows them.
\<close>

fun data_manager_updates ::
  "data_manager_t \<Rightarrow> (nat \<times> real \<times> data_source_t \<times> 32 word) list \<Rightarrow> fault + data_manager_t" where
  "data_manager_updates dm [] = Inr dm"
| "data_manager_updates dm ((pid, v, s, t) # us) =
     (case data_manager_update dm pid v s t of
        Inl e \<Rightarrow> Inl e
      | Inr (dm', notified) \<Rightarrow> data_manager_updates dm' us)"

definition stored_after ::
  "fault + data_manager_t \<Rightarrow> nat \<Rightarrow> fault + (real \<times> 32 word) option" where
  "stored_after r pid =
     (case r of Inl e \<Rightarrow> Inl e | Inr dm \<Rightarrow> data_manager_get_with_timestamp dm pid)"

section \<open>J1708 framer and J1587 parse (j1708\_parser.h, j1708\_parser.cpp)\<close>

definition J1708_INTER_BYTE_TIMEOUT_MS :: "32 word" where "J1708_INTER_BYTE_TIMEOUT_MS = 10"
definition J1708_MAX_MESSAGE_LENGTH :: nat where "J1708_MAX_MESSAGE_LENGTH = 21"
definition J1708_MIN_MESSAGE_LENGTH :: nat where "J1708_MIN_MESSAGE_LENGTH = 2"
definition J1708_MAX_PIDS :: nat where "J1708_MAX_PIDS = 10"

text \<open>
  A buffer argument \<open>(data, len)\<close> of the source is a byte list together with the 8-bit
  length; the loops read \<open>data[0 .. len - 1]\<close>, which must lie inside the list.
  \<open>byte_sum\<close> is the loop \<open>for (i = 0; i < len; i++) sum += data[i]\<close> on an 8-bit \<open>sum\<close>.
\<close>

definition byte_sum :: "8 word list \<Rightarrow> 8 word \<Rightarrow> 8 word" where
  "byte_sum data len = foldl (\<lambda>sum b. sum + b) 0 (take (unat len) data)"

definition j1708_validate_checksum :: "8 word list \<Rightarrow> 8 word \<Rightarrow> bool" where
  "j1708_validate_checksum data len =
     (if len < 2 then False else byte_sum data len = 0)"

definition j1708_calculate_checksum :: "8 word list \<Rightarrow> 8 word \<Rightarrow> 8 word" where
  "j1708_calculate_checksum data len =
     (if len = 0 then 0
      else ucast ((0x100 :: 32 word) - ucast (byte_sum data len)))"

definition pid_lengths :: "(8 word \<times> 8 word) list" where
  "pid_lengths =
     [(84, 1), (85, 1), (86, 1), (91, 1), (92, 1), (96, 1), (97, 1), (100, 1), (102, 1),
      (105, 1), (108, 1), (110, 1), (168, 1), (171, 1), (174, 1), (175, 1), (177, 2),
      (178, 1), (183, 2), (184, 2), (190, 2), (191, 2), (194, 0), (195, 0), (233, 0),
      (234, 0), (245, 4), (247, 4)]"

text \<open>The table is searched up to its end marker \<open>0xFF\<close>; the first matching entry wins.\<close>

definition j1708_get_pid_length :: "8 word \<Rightarrow> 8 word" where
  "j1708_get_pid_length pid =
     (case map_of pid_lengths pid of
        Some l \<Rightarrow> l
      | None \<Rightarrow> if pid \<ge> 192 \<and> pid \<le> 254 then 0 else 0)"

record j1587_parameter_t =
  jp_pid :: "8 word"
  jp_data :: "8 word list"
  jp_data_length :: "8 word"
  jp_is_valid :: bool

record j1708_message_t =
  mid :: "8 word"
  raw_data :: "8 word list"
  raw_length :: "8 word"
  params :: "j1587_parameter_t list"
  param_count :: "8 word"
  checksum_valid :: bool
  msg_timestamp_ms :: "32 word"

definition zero_parameter :: j1587_parameter_t where
  "zero_parameter = \<lparr> jp_pid = 0, jp_data = replicate 8 0, jp_data_length = 0, jp_is_valid = False \<rparr>"

text \<open>\<open>memset(msg, 0, sizeof(j1708_message_t))\<close>.\<close>

definition zero_message :: j1708_message_t where
  "zero_message =
     \<lparr> mid = 0, raw_data = replicate J1708_MAX_MESSAGE_LENGTH 0, raw_length = 0,
       params = replicate J1708_MAX_PIDS zero_parameter, param_count = 0,
       checksum_valid = False, msg_timestamp_ms = 0 \<rparr>"

text \<open>\<open>memcpy(dst, src, n)\<close> on arrays that hold at least \<open>n\<close> bytes.\<close>

definition memcpy :: "'a list \<Rightarrow> 'a list \<Rightarrow> nat \<Rightarrow> 'a list" where
  "memcpy dst src n = take n src @ drop n dst"

text \<open>
  The parameter loop of \<open>j1708_parse_message\<close>.  \<open>offset\<close> and \<open>data_end\<close> are 8-bit in
  the source; no addition in the loop goes past \<open>data_end \<le> 254\<close>, so they are naturals here.
  A \<open>break\<close> leaves the PID already written into the slot \<open>params[param_count]\<close>.
\<close>

function parse_params :: "8 word list \<Rightarrow> nat \<Rightarrow> nat \<Rightarrow> j1708_message_t \<Rightarrow> j1708_message_t" where
  "parse_params data offset data_end msg =
     (if offset < data_end \<and> unat (param_count msg) < J1708_MAX_PIDS then
        let k = unat (param_count msg);
            param = (params msg ! k) \<lparr> jp_pid := data ! offset \<rparr>;
            offset1 = offset + 1;
            pid_len0 = j1708_get_pid_length (jp_pid param)
        in if pid_len0 = 0 \<and> offset1 \<ge> data_end
           then msg \<lparr> params := (params msg)[k := param] \<rparr>
           else
             let pid_len = (if pid_len0 = 0 then data ! offset1 else pid_len0);
                 offset2 = (if pid_len0 = 0 then offset1 + 1 else offset1)
             in if offset2 + unat pid_len > data_end
                then msg \<lparr> params := (params msg)[k := param] \<rparr>
                else
                  let param1 = param \<lparr> jp_data_length := pid_len \<rparr>;
                      param2 = (if pid_len > 0 \<and> pid_len \<le> 8
                                then param1 \<lparr> jp_data := memcpy (jp_data param1) (drop offset2 data) (unat pid_len),
                                             jp_is_valid := True \<rparr>
                                else param1)
                  in parse_params data (offset2 + unat pid_len) data_end
                       (msg \<lparr> params := (params msg)[k := param2],
                              param_count := param_count msg + 1 \<rparr>)
      else msg)"
  by pat_completeness auto
termination
  by (relation "measure (\<lambda>(data, offset, data_end, msg). data_end - offset)") auto

declare parse_params.simps [simp del]

text \<open>
  \<open>j1708_parse_message\<close> returns its result and the message structure behind the output
  pointer; when the length check fails the structure is not touched.
\<close>

definition j1708_parse_message ::
  "8 word list \<Rightarrow> 8 word \<Rightarrow> j1708_message_t \<Rightarrow> bool \<times> j1708_message_t" where
  "j1708_parse_message data len msg =
     (if unat len < J1708_MIN_MESSAGE_LENGTH then (False, msg)
      else
        let msg1 = zero_message \<lparr> raw_data := memcpy (raw_data zero_message) data (unat len),
                                 raw_length := len,
                                 checksum_valid := j1708_validate_checksum data len \<rparr>
        in if \<not> checksum_valid msg1 then (False, msg1)
           else (True, parse_params data 1 (unat len - 1) (msg1 \<lparr> mid := data ! 0 \<rparr>)))"

datatype j1708_rx_state_t = J1708_RX_IDLE | J1708_RX_RECEIVING | J1708_RX_COMPLETE

record j1708_parser_context_t =
  rx_state :: j1708_rx_state_t
  buffer :: "8 word list"
  buffer_index :: "8 word"
  last_byte_time_ms :: "32 word"
  messages_received :: "32 word"
  checksum_errors :: "32 word"
  parse_errors :: "32 word"

definition j1708_parser_init :: j1708_parser_context_t where
  "j1708_parser_init =
     \<lparr> rx_state = J1708_RX_IDLE, buffer = replicate J1708_MAX_MESSAGE_LENGTH 0,
       buffer_index = 0, last_byte_time_ms = 0, messages_received = 0,
       checksum_errors = 0, parse_errors = 0 \<rparr>"

text \<open>The last part of \<open>j1708_receive_byte\<close>: the COMPLETE check and the store of the byte.\<close>

definition store_byte ::
  "j1708_parser_context_t \<Rightarrow> 8 word \<Rightarrow> 32 word \<Rightarrow> bool \<times> j1708_parser_context_t" where
  "store_byte ctx byte timestamp_ms =
     (if rx_state ctx = J1708_RX_COMPLETE then (True, ctx)
      else if unat (buffer_index ctx) < J1708_MAX_MESSAGE_LENGTH
      then (False, ctx \<lparr> buffer := (buffer ctx)[unat (buffer_index ctx) := byte],
                         buffer_index := buffer_index ctx + 1,
                         last_byte_time_ms := timestamp_ms,
                         rx_state := J1708_RX_RECEIVING \<rparr>)
      else (False, ctx \<lparr> rx_state := J1708_RX_IDLE, buffer_index := 0,
                         parse_errors := parse_errors ctx + 1 \<rparr>))"

definition j1708_receive_byte ::
  "j1708_parser_context_t \<Rightarrow> 8 word \<Rightarrow> 32 word \<Rightarrow> bool \<times> j1708_parser_context_t" where
  "j1708_receive_byte ctx byte timestamp_ms =
     (if rx_state ctx = J1708_RX_RECEIVING
         \<and> timestamp_ms - last_byte_time_ms ctx > J1708_INTER_BYTE_TIMEOUT_MS
      then
        (if unat (buffer_index ctx) \<ge> J1708_MIN_MESSAGE_LENGTH
         then
           (if j1708_validate_checksum (buffer ctx) (buffer_index ctx)
            then (True, ctx \<lparr> rx_state := J1708_RX_COMPLETE,
                              messages_received := messages_received ctx + 1 \<rparr>)
            else store_byte (ctx \<lparr> checksum_errors := checksum_errors ctx + 1,
                                   rx_state := J1708_RX_IDLE, buffer_index := 0 \<rparr>)
                            byte timestamp_ms)
         else store_byte (ctx \<lparr> rx_state := J1708_RX_IDLE, buffer_index := 0 \<rparr>) byte timestamp_ms)
      else store_byte ctx byte timestamp_ms)"

text \<open>
  \<open>j1708_get_message\<close> returns its result, the message behind the output pointer and the
  context.
\<close>

definition j1708_get_message ::
  "j1708_parser_context_t \<Rightarrow> j1708_message_t
     \<Rightarrow> bool \<times> j1708_message_t \<times> j1708_parser_context_t" where
  "j1708_get_message ctx msg =
     (if rx_state ctx \<noteq> J1708_RX_COMPLETE then (False, msg, ctx)
      else
        let (result, msg') = j1708_parse_message (buffer ctx) (buffer_index ctx) msg
        in (result, msg', ctx \<lparr> rx_state := J1708_RX_IDLE, buffer_index := 0 \<rparr>))"

text \<open>
  The receive loop of \<open>j1708_task\<close> (main.cpp) on a sequence of bytes with their arrival
  times: when \<open>j1708_receive_byte\<close> returns true the message is fetched with
  \<open>j1708_get_message\<close>, and the loop goes on with the next byte.  The result is the context
  and the messages for which \<open>j1708_get_message\<close> returned true.
\<close>

fun j1708_task ::
  "j1708_parser_context_t \<Rightarrow> (8 word \<times> 32 word) list
     \<Rightarrow> j1708_parser_context_t \<times> j1708_message_t list" where
  "j1708_task ctx [] = (ctx, [])"
| "j1708_task ctx ((byte, t) # rest) =
     (case j1708_receive_byte ctx byte t of
        (False, ctx1) \<Rightarrow> j1708_task ctx1 rest
      | (True, ctx1) \<Rightarrow>
          (case j1708_get_message ctx1 zero_message of
             (result, msg, ctx2) \<Rightarrow>
               (case j1708_task ctx2 rest of
                  (ctx3, msgs) \<Rightarrow> (ctx3, if result then msg # msgs else msgs))))"

text \<open>
  The caller that the comment in \<open>j1708_receive_byte\<close> asks for ("Don't start new byte
  yet, let caller get message first"): when \<open>j1708_receive_byte\<close> returns true it fetches
  the message with \<open>j1708_get_message\<close> and then submits the same byte, with the same
  time, a second time.
\<close>

fun feed_resubmit ::
  "j1708_parser_context_t \<Rightarrow> (8 word \<times> 32 word) list
     \<Rightarrow> j1708_parser_context_t \<times> j1708_message_t list" where
  "feed_resubmit ctx [] = (ctx, [])"
| "feed_resubmit ctx ((byte, t) # rest) =
     (case j1708_receive_byte ctx byte t of
        (False, ctx1) \<Rightarrow> feed_resubmit ctx1 rest
      | (True, ctx1) \<Rightarrow>
          (case j1708_get_message ctx1 zero_message of
             (result, msg, ctx2) \<Rightarrow>
               (case feed_resubmit (snd (j1708_receive_byte ctx2 byte t)) rest of
                  (ctx3, msgs) \<Rightarrow> (ctx3, if result then msg # msgs else msgs))))"

text \<open>Arrival times that follow each other within the inter-byte timeout (32-bit difference).\<close>

fun within_gap :: "32 word \<Rightarrow> 32 word list \<Rightarrow> bool" where
  "within_gap t [] = True"
| "within_gap t (u # us) = (\<not> (u - t > J1708_INTER_BYTE_TIMEOUT_MS) \<and> within_gap u us)"

text \<open>A valid message: 2 to 21 bytes whose sum is 0 modulo 256.\<close>

definition valid_message :: "8 word list \<Rightarrow> bool" where
  "valid_message m \<longleftrightarrow>
     J1708_MIN_MESSAGE_LENGTH \<le> length m \<and> length m \<le> J1708_MAX_MESSAGE_LENGTH
     \<and> j1708_validate_checksum m (of_nat (length m))"

text \<open>
  The framer while it holds the bytes \<open>m\<close> of a message in progress, the last of them
  received at time \<open>t\<close>.
\<close>

definition holding :: "j1708_parser_context_t \<Rightarrow> 8 word list \<Rightarrow> 32 word \<Rightarrow> bool" where
  "holding ctx m t \<longleftrightarrow>
     rx_state ctx = J1708_RX_RECEIVING
     \<and> unat (buffer_index ctx) = length m
     \<and> take (length m) (buffer ctx) = m
     \<and> length (buffer ctx) = J1708_MAX_MESSAGE_LENGTH
     \<and> last_byte_time_ms ctx = t"

section \<open>J1939 transport protocol and DM1 (j1939\_parser.h, j1939\_parser.cpp)\<close>

definition J1939_TP_MAX_LENGTH :: nat where "J1939_TP_MAX_LENGTH = 1785"
definition J1939_TP_TIMEOUT_MS :: "32 word" where "J1939_TP_TIMEOUT_MS = 750"
definition J1939_MAX_ACTIVE_TP :: nat where "J1939_MAX_ACTIVE_TP = 4"
definition PGN_TP_CM :: "32 word" where "PGN_TP_CM = 60416"
definition PGN_TP_DT :: "32 word" where "PGN_TP_DT = 60160"
definition TP_CM_BAM :: "8 word" where "TP_CM_BAM = 32"

text \<open>\<open>m_data\<close> is the array \<open>data[8]\<close> of the structure: a list of 8 bytes.\<close>

record j1939_message_t =
  m_pgn :: "32 word"
  m_source_address :: "8 word"
  m_destination :: "8 word"
  m_priority :: "8 word"
  m_data :: "8 word list"
  m_data_length :: "8 word"
  m_timestamp_ms :: "32 word"

datatype tp_state_t = TP_STATE_IDLE | TP_STATE_RECEIVING | TP_STATE_COMPLETE | TP_STATE_ERROR

record tp_session_t =
  tp_state :: tp_state_t
  target_pgn :: "32 word"
  tp_source_address :: "8 word"
  total_size :: "16 word"
  total_packets :: "8 word"
  received_packets :: "8 word"
  tp_buffer :: "8 word list"
  last_packet_time_ms :: "32 word"

record j1939_parser_context_t =
  tp_sessions :: "tp_session_t list"
  ctx_messages_received :: "32 word"
  ctx_messages_parsed :: "32 word"
  ctx_parse_errors :: "32 word"
  tp_complete_count :: "32 word"

definition j1939_parser_init :: j1939_parser_context_t where
  "j1939_parser_init =
     \<lparr> tp_sessions = replicate J1939_MAX_ACTIVE_TP
          \<lparr> tp_state = TP_STATE_IDLE, target_pgn = 0, tp_source_address = 0, total_size = 0,
            total_packets = 0, received_packets = 0,
            tp_buffer = replicate J1939_TP_MAX_LENGTH 0, last_packet_time_ms = 0 \<rparr>,
       ctx_messages_received = 0, ctx_messages_parsed = 0, ctx_parse_errors = 0,
       tp_complete_count = 0 \<rparr>"

text \<open>
  A pointer into \<open>tp_sessions\<close> is the index of the slot, \<open>None\<close> the NULL pointer.
  \<open>first_index P xs\<close> is the loop that returns the first slot satisfying \<open>P\<close>.
\<close>

fun first_index :: "('a \<Rightarrow> bool) \<Rightarrow> 'a list \<Rightarrow> nat option" where
  "first_index P [] = None"
| "first_index P (x # xs) = (if P x then Some 0 else map_option Suc (first_index P xs))"

definition find_tp_session :: "j1939_parser_context_t \<Rightarrow> 8 word \<Rightarrow> nat option" where
  "find_tp_session ctx source_address =
     first_index (\<lambda>s. tp_state s \<noteq> TP_STATE_IDLE \<and> tp_source_address s = source_address)
       (tp_sessions ctx)"

definition allocate_tp_session :: "j1939_parser_context_t \<Rightarrow> nat option" where
  "allocate_tp_session ctx = first_index (\<lambda>s. tp_state s = TP_STATE_IDLE) (tp_sessions ctx)"

text \<open>
  The copy loop of a data-transfer frame:
  \<open>for (i = 0; i < 7 && (offset + i) < total_size; i++) buffer[offset + i] = data[1 + i]\<close>.
\<close>

function tp_copy :: "8 word list \<Rightarrow> 8 word list \<Rightarrow> nat \<Rightarrow> nat \<Rightarrow> nat \<Rightarrow> 8 word list" where
  "tp_copy buf dat offset size_total i =
     (if i < 7 \<and> offset + i < size_total
      then tp_copy (buf[offset + i := dat ! (1 + i)]) dat offset size_total (i + 1)
      else buf)"
  by pat_completeness auto
termination
  by (relation "measure (\<lambda>(buf, dat, offset, size_total, i). 7 - i)") auto

declare tp_copy.simps [simp del]

definition set_session ::
  "j1939_parser_context_t \<Rightarrow> nat \<Rightarrow> tp_session_t \<Rightarrow> j1939_parser_context_t" where
  "set_session ctx k s = ctx \<lparr> tp_sessions := (tp_sessions ctx)[k := s] \<rparr>"

definition j1939_tp_handle_frame ::
  "j1939_parser_context_t \<Rightarrow> j1939_message_t \<Rightarrow> bool \<times> j1939_parser_context_t" where
  "j1939_tp_handle_frame ctx msg =
     (if m_pgn msg = PGN_TP_CM then
        (if m_data msg ! 0 = TP_CM_BAM then
           (case (case find_tp_session ctx (m_source_address msg) of
                    Some k \<Rightarrow> Some k
                  | None \<Rightarrow> allocate_tp_session ctx) of
              None \<Rightarrow> (False, ctx)
            | Some k \<Rightarrow>
                (False, set_session ctx k
                   ((tp_sessions ctx ! k)
                      \<lparr> tp_state := TP_STATE_RECEIVING,
                        tp_source_address := m_source_address msg,
                        total_size := ucast (m_data msg ! 1) OR push_bit 8 (ucast (m_data msg ! 2)),
                        total_packets := m_data msg ! 3,
                        target_pgn := ucast (m_data msg ! 5) OR push_bit 8 (ucast (m_data msg ! 6))
                                        OR push_bit 16 (ucast (m_data msg ! 7)),
                        received_packets := 0,
                        last_packet_time_ms := m_timestamp_ms msg,
                        tp_buffer := replicate J1939_TP_MAX_LENGTH 0xFF \<rparr>)))
         else (False, ctx))
      else if m_pgn msg = PGN_TP_DT then
        (case find_tp_session ctx (m_source_address msg) of
           None \<Rightarrow> (False, ctx)
         | Some k \<Rightarrow>
             let session = tp_sessions ctx ! k in
             if tp_state session \<noteq> TP_STATE_RECEIVING then (False, ctx)
             else if m_timestamp_ms msg - last_packet_time_ms session > J1939_TP_TIMEOUT_MS
             then (False, set_session ctx k (session \<lparr> tp_state := TP_STATE_ERROR \<rparr>))
             else
               let seq_num = m_data msg ! 0 in
               if unat seq_num \<noteq> unat (received_packets session) + 1
               then (False, set_session ctx k (session \<lparr> tp_state := TP_STATE_ERROR \<rparr>))
               else
                 let offset = (unat seq_num - 1) * 7;
                     session1 = session
                       \<lparr> tp_buffer := tp_copy (tp_buffer session) (m_data msg) offset
                                        (unat (total_size session)) 0,
                         received_packets := received_packets session + 1,
                         last_packet_time_ms := m_timestamp_ms msg \<rparr>
                 in if received_packets session1 \<ge> total_packets session1
                    then (True, (set_session ctx k (session1 \<lparr> tp_state := TP_STATE_COMPLETE \<rparr>))
                                  \<lparr> tp_complete_count := tp_complete_count ctx + 1 \<rparr>)
                    else (False, set_session ctx k session1))
      else (False, ctx))"

text \<open>
  \<open>j1939_tp_get_data\<close>.  The output pointers \<open>pgn\<close> and \<open>data\<close> are options, \<open>None\<close> for
  NULL; the function returns the length, what is behind both pointers afterwards, and the
  context.  The caller's array holds at least \<open>max_len\<close> bytes.
\<close>

definition j1939_tp_get_data ::
  "j1939_parser_context_t \<Rightarrow> 8 word \<Rightarrow> 32 word option \<Rightarrow> 8 word list option \<Rightarrow> 16 word
     \<Rightarrow> 16 word \<times> 32 word option \<times> 8 word list option \<times> j1939_parser_context_t" where
  "j1939_tp_get_data ctx source_address pgn_out data_out max_len =
     (case data_out of
        None \<Rightarrow> (0, pgn_out, data_out, ctx)
      | Some out \<Rightarrow>
          (case find_tp_session ctx source_address of
             None \<Rightarrow> (0, pgn_out, data_out, ctx)
           | Some k \<Rightarrow>
               let session = tp_sessions ctx ! k in
               if tp_state session \<noteq> TP_STATE_COMPLETE then (0, pgn_out, data_out, ctx)
               else
                 let copy_len = (if total_size session < max_len then total_size session
                                 else max_len)
                 in (copy_len,
                     (case pgn_out of None \<Rightarrow> None | Some p \<Rightarrow> Some (target_pgn session)),
                     Some (memcpy out (tp_buffer session) (unat copy_len)),
                     set_session ctx k (session \<lparr> tp_state := TP_STATE_IDLE \<rparr>))))"

text \<open>Frames handed to \<open>j1939_tp_handle_frame\<close> one after the other, with the results.\<close>

fun tp_handle_frames ::
  "j1939_parser_context_t \<Rightarrow> j1939_message_t list \<Rightarrow> bool list \<times> j1939_parser_context_t" where
  "tp_handle_frames ctx [] = ([], ctx)"
| "tp_handle_frames ctx (msg # msgs) =
     (let (r, ctx1) = j1939_tp_handle_frame ctx msg;
          (rs, ctx2) = tp_handle_frames ctx1 msgs
      in (r # rs, ctx2))"

text \<open>The seven payload bytes of a data-transfer frame (bytes 1 to 7).\<close>

definition dt_payload :: "j1939_message_t \<Rightarrow> 8 word list" where
  "dt_payload msg = take 7 (drop 1 (m_data msg))"

text \<open>Timestamps that follow each other within the inter-packet timeout (32-bit difference).\<close>

fun within_timeout :: "32 word \<Rightarrow> 32 word list \<Rightarrow> bool" where
  "within_timeout t [] = True"
| "within_timeout t (u # us) = (\<not> (u - t > J1939_TP_TIMEOUT_MS) \<and> within_timeout u us)"

text \<open>
  The slot \<open>k\<close> of a transfer from \<open>sa\<close> in progress: \<open>recv\<close> packets received, the
  last one at time \<open>t\<close>, and the reassembly buffer agreeing with the payload bytes \<open>pre\<close>
  received so far, as far as they lie below the announced size.  \<open>completed\<close> is the slot
  after the last packet.
\<close>

definition receiving ::
  "j1939_parser_context_t \<Rightarrow> nat \<Rightarrow> 8 word \<Rightarrow> 16 word \<Rightarrow> 8 word \<Rightarrow> 32 word \<Rightarrow> 32 word
     \<Rightarrow> nat \<Rightarrow> 8 word list \<Rightarrow> bool" where
  "receiving ctx k sa S P G t recv pre \<longleftrightarrow>
     k < length (tp_sessions ctx)
     \<and> find_tp_session ctx sa = Some k
     \<and> tp_state (tp_sessions ctx ! k) = TP_STATE_RECEIVING
     \<and> total_size (tp_sessions ctx ! k) = S
     \<and> total_packets (tp_sessions ctx ! k) = P
     \<and> target_pgn (tp_sessions ctx ! k) = G
     \<and> unat (received_packets (tp_sessions ctx ! k)) = recv
     \<and> last_packet_time_ms (tp_sessions ctx ! k) = t
     \<and> length (tp_buffer (tp_sessions ctx ! k)) = J1939_TP_MAX_LENGTH
     \<and> length pre = 7 * recv
     \<and> take (min (7 * recv) (unat S)) (tp_buffer (tp_sessions ctx ! k))
         = take (min (7 * recv) (unat S)) pre"

definition completed ::
  "j1939_parser_context_t \<Rightarrow> nat \<Rightarrow> 8 word \<Rightarrow> 16 word \<Rightarrow> 32 word \<Rightarrow> 8 word list \<Rightarrow> bool" where
  "completed ctx k sa S G payload \<longleftrightarrow>
     k < length (tp_sessions ctx)
     \<and> find_tp_session ctx sa = Some k
     \<and> tp_state (tp_sessions ctx ! k) = TP_STATE_COMPLETE
     \<and> total_size (tp_sessions ctx ! k) = S
     \<and> target_pgn (tp_sessions ctx ! k) = G
     \<and> length (tp_buffer (tp_sessions ctx ! k)) = J1939_TP_MAX_LENGTH
     \<and> take (unat S) (tp_buffer (tp_sessions ctx ! k)) = take (unat S) payload"

subsection \<open>DM1\<close>

record j1939_dtc_t =
  spn :: "32 word"
  fmi :: "8 word"
  oc :: "8 word"
  dtc_source_address :: "8 word"
  is_active :: bool

record j1939_lamp_status_t =
  protect_lamp :: bool
  amber_warning_lamp :: bool
  red_stop_lamp :: bool
  malfunction_lamp :: bool

text \<open>
  The loop of \<open>j1939_parse_dm1\<close>.  \<open>offset\<close> (16 bits) and \<open>dtc_count\<close> (8 bits) cannot
  wrap: \<open>offset + 4 \<le> len\<close> and \<open>dtc_count < max_dtcs\<close> hold before each increment.
\<close>

function dm1_loop ::
  "8 word list \<Rightarrow> nat \<Rightarrow> nat \<Rightarrow> j1939_dtc_t list \<Rightarrow> nat \<Rightarrow> nat \<Rightarrow> nat \<times> j1939_dtc_t list" where
  "dm1_loop dat len offset dtcs dtc_count max_dtcs =
     (if offset + 4 \<le> len \<and> dtc_count < max_dtcs then
        let spn_v = (ucast (dat ! offset) :: 32 word)
                      OR push_bit 8 (ucast (dat ! (offset + 1)))
                      OR push_bit 11 (ucast (dat ! (offset + 2) AND 0xE0));
            fmi_v = dat ! (offset + 2) AND 0x1F;
            oc_v = dat ! (offset + 3) AND 0x7F
        in if spn_v \<noteq> 0 \<or> fmi_v \<noteq> 0
           then dm1_loop dat len (offset + 4)
                  (dtcs[dtc_count := (dtcs ! dtc_count)
                          \<lparr> spn := spn_v, fmi := fmi_v, oc := oc_v, is_active := True \<rparr>])
                  (dtc_count + 1) max_dtcs
           else dm1_loop dat len (offset + 4) dtcs dtc_count max_dtcs
      else (dtc_count, dtcs))"
  by pat_completeness auto
termination
  by (relation "measure (\<lambda>(dat, len, offset, dtcs, dtc_count, max_dtcs). len - offset)") auto

declare dm1_loop.simps [simp del]

text \<open>
  \<open>j1939_parse_dm1\<close> returns the count and what is behind the output pointers \<open>lamps\<close> and
  \<open>dtcs\<close> afterwards (\<open>None\<close> for a NULL pointer).  The caller's array \<open>dtcs\<close> holds at
  least \<open>max_dtcs\<close> entries and \<open>dat\<close> at least \<open>len\<close> bytes.
\<close>

definition j1939_parse_dm1 ::
  "8 word list \<Rightarrow> 16 word \<Rightarrow> j1939_lamp_status_t option \<Rightarrow> j1939_dtc_t list option \<Rightarrow> 8 word
     \<Rightarrow> 8 word \<times> j1939_lamp_status_t option \<times> j1939_dtc_t list option" where
  "j1939_parse_dm1 dat len lamps dtcs max_dtcs =
     (if len < 2 then (0, lamps, dtcs)
      else
        let lamps1 = (case lamps of
                        None \<Rightarrow> None
                      | Some l \<Rightarrow> Some (l \<lparr> protect_lamp := (dat ! 0 AND 0x04) \<noteq> 0,
                                           amber_warning_lamp := (dat ! 0 AND 0x10) \<noteq> 0,
                                           red_stop_lamp := (dat ! 1 AND 0x04) \<noteq> 0,
                                           malfunction_lamp := (dat ! 1 AND 0x10) \<noteq> 0 \<rparr>))
        in case dtcs of
             None \<Rightarrow> (0, lamps1, dtcs)
           | Some ds \<Rightarrow>
               if max_dtcs = 0 then (0, lamps1, dtcs)
               else
                 let (n, ds1) = dm1_loop dat (unat len) 2 ds 0 (unat max_dtcs)
                 in (of_nat n, lamps1, Some ds1))"

text \<open>
  The DTC fields in the words of the specification, for the four bytes of one record:
  \<open>spn = b0 | (b1<<8) | ((b2 & 0xE0) << 11)\<close>, \<open>fmi = b2 & 0x1F\<close>, \<open>oc = b3 & 0x7F\<close>,
  \<open>cm = (b3 >> 7) & 1\<close>.
\<close>

definition dtc_spn :: "8 word \<Rightarrow> 8 word \<Rightarrow> 8 word \<Rightarrow> 32 word" where
  "dtc_spn b0 b1 b2 = ucast b0 OR push_bit 8 (ucast b1) OR push_bit 11 (ucast (b2 AND 0xE0))"

definition dtc_fmi :: "8 word \<Rightarrow> 8 word" where
  "dtc_fmi b2 = b2 AND 0x1F"

definition dtc_oc :: "8 word \<Rightarrow> 8 word" where
  "dtc_oc b3 = b3 AND 0x7F"

definition dtc_cm :: "8 word \<Rightarrow> 8 word" where
  "dtc_cm b3 = drop_bit 7 b3 AND 1"

text \<open>
  The records of a payload of \<open>len\<close> bytes: the 4-byte groups at offsets 2, 6, 10, ... that
  lie inside the payload, each as (spn, fmi, oc); the records that are emitted are those
  other than \<open>spn = 0 \<and> fmi = 0\<close>.
\<close>

definition dm1_offsets :: "nat \<Rightarrow> nat list" where
  "dm1_offsets len = map (\<lambda>k. 2 + 4 * k) [0 ..< (len - 2) div 4]"

definition dm1_record :: "8 word list \<Rightarrow> nat \<Rightarrow> 32 word \<times> 8 word \<times> 8 word" where
  "dm1_record dat off =
     (dtc_spn (dat ! off) (dat ! (off + 1)) (dat ! (off + 2)),
      dtc_fmi (dat ! (off + 2)), dtc_oc (dat ! (off + 3)))"

definition no_fault :: "32 word \<times> 8 word \<times> 8 word \<Rightarrow> bool" where
  "no_fault r = (fst r = 0 \<and> fst (snd r) = 0)"

definition dm1_emitted :: "8 word list \<Rightarrow> nat \<Rightarrow> (32 word \<times> 8 word \<times> 8 word) list" where
  "dm1_emitted dat len = filter (\<lambda>r. \<not> no_fault r) (map (dm1_record dat) (dm1_offsets len))"

text \<open>The same from any offset on: the emitted records at \<open>off\<close>, \<open>off + 4\<close>, ...\<close>

definition emitted_from :: "8 word list \<Rightarrow> nat \<Rightarrow> nat \<Rightarrow> (32 word \<times> 8 word \<times> 8 word) list" where
  "emitted_from dat len off =
     filter (\<lambda>r. \<not> no_fault r)
       (map (dm1_record dat) (map (\<lambda>k. off + 4 * k) [0 ..< (len - off) div 4]))"

definition write_dtc :: "j1939_dtc_t \<Rightarrow> 32 word \<times> 8 word \<times> 8 word \<Rightarrow> j1939_dtc_t" where
  "write_dtc d r = d \<lparr> spn := fst r, fmi := fst (snd r), oc := snd (snd r), is_active := True \<rparr>"

definition d0 :: j1939_dtc_t where
  "d0 = \<lparr> spn = 0, fmi = 0, oc = 0, dtc_source_address = 0x11, is_active = False \<rparr>"

section \<open>Persistent storage (nvs\_storage.h, nvs\_storage.cpp)\<close>

definition NVS_MAX_DTC_HISTORY :: nat where "NVS_MAX_DTC_HISTORY = 20"
definition SAVE_INTERVAL_MS :: "32 word" where "SAVE_INTERVAL_MS = 5 * 60 * 1000"
definition DISTANCE_THRESHOLD_KM :: real where "DISTANCE_THRESHOLD_KM = 1"

record trip_data_t =
  distance_km :: real
  fuel_used_liters :: real
  start_time :: "32 word"
  duration_seconds :: "32 word"
  avg_speed_kmh :: real
  avg_fuel_economy :: real
  trip_is_active :: bool

record lifetime_stats_t =
  total_distance_km :: real
  total_fuel_liters :: real
  engine_hours :: real
  lt_boot_count :: "32 word"
  best_mpg :: real
  worst_mpg :: real
  first_boot_time :: "32 word"
  total_runtime_seconds :: "32 word"

record stored_dtc_t =
  sd_spn :: "32 word"
  sd_fmi :: "8 word"
  sd_source_address :: "8 word"
  first_seen :: "32 word"
  last_seen :: "32 word"
  occurrence_count :: "16 word"
  sd_is_active :: bool

record user_settings_t =
  units :: "8 word"
  brightness :: "8 word"
  default_page :: "8 word"
  temp_unit :: "8 word"
  pressure_unit :: "8 word"
  fuel_unit :: "8 word"
  fuel_tank_1_size :: "16 word"
  fuel_tank_2_size :: "16 word"

record system_state_t =
  clean_shutdown :: bool
  last_timestamp :: "32 word"
  boot_count :: "32 word"
  crash_count :: "32 word"
  pending_distance :: real
  pending_fuel :: real

record nvs_storage_t =
  initialized :: bool
  trip_a :: trip_data_t
  trip_b :: trip_data_t
  lifetime :: lifetime_stats_t
  dtc_history :: "stored_dtc_t list"
  dtc_count :: "8 word"
  settings :: user_settings_t
  system :: system_state_t
  trip_a_dirty :: bool
  trip_b_dirty :: bool
  lifetime_dirty :: bool
  dtc_dirty :: bool
  settings_dirty :: bool
  distance_accumulator :: real
  fuel_accumulator :: real
  last_save_time_ms :: "32 word"

text \<open>
  The flash partition behind the \<open>Preferences\<close> objects of the target build (the branches
  under \<open>#ifndef NATIVE_BUILD\<close>).  A namespace is \<open>None\<close> until it is first opened for
  writing.  The namespaces that are always written as a whole hold the values of their keys as
  one structure; the keys of the namespace \<open>system\<close> are written one by one and are kept
  apart, \<open>None\<close> for a key that was never written (a read then gives the default).
\<close>

record system_ns =
  k_clean_shut :: "bool option"
  k_last_time :: "32 word option"
  k_boot_count :: "32 word option"
  k_crash_count :: "32 word option"
  k_pend_dist :: "real option"
  k_pend_fuel :: "real option"

record nvs_flash =
  ns_trip_a :: "trip_data_t option"
  ns_trip_b :: "trip_data_t option"
  ns_lifetime :: "lifetime_stats_t option"
  ns_settings :: "user_settings_t option"
  ns_fault_log :: "(8 word \<times> stored_dtc_t list) option"
  ns_system :: "system_ns option"

definition empty_system_ns :: system_ns where
  "empty_system_ns =
     \<lparr> k_clean_shut = None, k_last_time = None, k_boot_count = None, k_crash_count = None,
       k_pend_dist = None, k_pend_fuel = None \<rparr>"

text \<open>Opening a namespace for writing creates it when it does not exist.\<close>

definition open_system :: "nvs_flash \<Rightarrow> system_ns" where
  "open_system f = (case ns_system f of None \<Rightarrow> empty_system_ns | Some s \<Rightarrow> s)"

definition default_settings :: user_settings_t where
  "default_settings =
     \<lparr> units = 1, brightness = 75, default_page = 0, temp_unit = 1, pressure_unit = 1,
       fuel_unit = 1, fuel_tank_1_size = 200, fuel_tank_2_size = 200 \<rparr>"

definition init_trip_defaults :: trip_data_t where
  "init_trip_defaults =
     \<lparr> distance_km = 0, fuel_used_liters = 0, start_time = 0, duration_seconds = 0,
       avg_speed_kmh = 0, avg_fuel_economy = 0, trip_is_active = False \<rparr>"

definition init_lifetime_defaults :: lifetime_stats_t where
  "init_lifetime_defaults =
     \<lparr> total_distance_km = 0, total_fuel_liters = 0, engine_hours = 0, lt_boot_count = 0,
       best_mpg = 0, worst_mpg = 999, first_boot_time = 0, total_runtime_seconds = 0 \<rparr>"

definition zero_dtc :: stored_dtc_t where
  "zero_dtc =
     \<lparr> sd_spn = 0, sd_fmi = 0, sd_source_address = 0, first_seen = 0, last_seen = 0,
       occurrence_count = 0, sd_is_active = False \<rparr>"

text \<open>The storage after the \<open>memset\<close> and the defaults of \<open>nvs_storage_init\<close>.\<close>

definition storage_defaults :: nvs_storage_t where
  "storage_defaults =
     \<lparr> initialized = False,
       trip_a = init_trip_defaults, trip_b = init_trip_defaults,
       lifetime = init_lifetime_defaults,
       dtc_history = replicate NVS_MAX_DTC_HISTORY zero_dtc, dtc_count = 0,
       settings = default_settings,
       system = \<lparr> clean_shutdown = False, last_timestamp = 0, boot_count = 0, crash_count = 0,
                  pending_distance = 0, pending_fuel = 0 \<rparr>,
       trip_a_dirty = False, trip_b_dirty = False, lifetime_dirty = False, dtc_dirty = False,
       settings_dirty = False, distance_accumulator = 0, fuel_accumulator = 0,
       last_save_time_ms = 0 \<rparr>"

definition key_or :: "'a option \<Rightarrow> 'a \<Rightarrow> 'a" where
  "key_or k d = (case k of None \<Rightarrow> d | Some v \<Rightarrow> v)"

definition load_trip :: "trip_data_t \<Rightarrow> trip_data_t option \<Rightarrow> trip_data_t" where
  "load_trip t ns =
     (case ns of
        None \<Rightarrow> t
      | Some s \<Rightarrow> t \<lparr> distance_km := distance_km s, fuel_used_liters := fuel_used_liters s,
                       start_time := start_time s, duration_seconds := duration_seconds s,
                       avg_speed_kmh := avg_speed_kmh s, trip_is_active := trip_is_active s \<rparr>)"

definition nvs_storage_load_all :: "nvs_storage_t \<Rightarrow> nvs_flash \<Rightarrow> bool \<times> nvs_storage_t" where
  "nvs_storage_load_all storage f =
     (let s1 = storage \<lparr> trip_a := load_trip (trip_a storage) (ns_trip_a f),
                          trip_b := load_trip (trip_b storage) (ns_trip_b f) \<rparr>;
          s2 = (case ns_lifetime f of None \<Rightarrow> s1 | Some l \<Rightarrow> s1 \<lparr> lifetime := l \<rparr>);
          s3 = (case ns_settings f of None \<Rightarrow> s2 | Some u \<Rightarrow> s2 \<lparr> settings := u \<rparr>);
          s4 = (case ns_system f of
                  None \<Rightarrow> s3
                | Some k \<Rightarrow> s3 \<lparr> system :=
                    \<lparr> clean_shutdown = key_or (k_clean_shut k) True,
                      last_timestamp = key_or (k_last_time k) 0,
                      boot_count = key_or (k_boot_count k) 0,
                      crash_count = key_or (k_crash_count k) 0,
                      pending_distance = key_or (k_pend_dist k) 0,
                      pending_fuel = key_or (k_pend_fuel k) 0 \<rparr> \<rparr>);
          s5 = (case ns_fault_log f of
                  None \<Rightarrow> s4
                | Some (cnt, blob) \<Rightarrow>
                    if cnt > 0 \<and> unat cnt \<le> NVS_MAX_DTC_HISTORY
                    then s4 \<lparr> dtc_count := cnt,
                              dtc_history := memcpy (dtc_history s4) blob (unat cnt) \<rparr>
                    else s4 \<lparr> dtc_count := cnt \<rparr>)
      in (True, s5))"

definition nvs_storage_init :: "nvs_flash \<Rightarrow> bool \<times> nvs_storage_t \<times> nvs_flash" where
  "nvs_storage_init f =
     (let (load_success, s) = nvs_storage_load_all storage_defaults f;
          sys1 = (system s) \<lparr> boot_count := boot_count (system s) + 1 \<rparr>;
          sys2 = (if \<not> clean_shutdown sys1
                  then sys1 \<lparr> crash_count := crash_count sys1 + 1 \<rparr> else sys1);
          sys3 = sys2 \<lparr> clean_shutdown := False \<rparr>;
          s' = s \<lparr> system := sys3, initialized := True \<rparr>;
          f' = f \<lparr> ns_system := Some ((open_system f)
                        \<lparr> k_boot_count := Some (boot_count sys3),
                          k_crash_count := Some (crash_count sys3),
                          k_clean_shut := Some False \<rparr>) \<rparr>
      in (load_success, s', f'))"

definition nvs_storage_save_all :: "nvs_storage_t \<Rightarrow> nvs_flash \<Rightarrow> bool \<times> nvs_storage_t \<times> nvs_flash" where
  "nvs_storage_save_all storage f =
     (if \<not> initialized storage then (False, storage, f)
      else
        let (s1, f1) = (if trip_a_dirty storage
                        then (storage \<lparr> trip_a_dirty := False \<rparr>, f \<lparr> ns_trip_a := Some (trip_a storage) \<rparr>)
                        else (storage, f));
            (s2, f2) = (if trip_b_dirty s1
                        then (s1 \<lparr> trip_b_dirty := False \<rparr>, f1 \<lparr> ns_trip_b := Some (trip_b s1) \<rparr>)
                        else (s1, f1));
            (s3, f3) = (if lifetime_dirty s2
                        then (s2 \<lparr> lifetime_dirty := False \<rparr>, f2 \<lparr> ns_lifetime := Some (lifetime s2) \<rparr>)
                        else (s2, f2));
            (s4, f4) = (if settings_dirty s3
                        then (s3 \<lparr> settings_dirty := False \<rparr>, f3 \<lparr> ns_settings := Some (settings s3) \<rparr>)
                        else (s3, f3));
            (s5, f5) = (if dtc_dirty s4
                        then (s4 \<lparr> dtc_dirty := False \<rparr>,
                              f4 \<lparr> ns_fault_log := Some (dtc_count s4,
                                     if dtc_count s4 > 0
                                     then take (unat (dtc_count s4)) (dtc_history s4)
                                     else (case ns_fault_log f4 of None \<Rightarrow> [] | Some (c, b) \<Rightarrow> b)) \<rparr>)
                        else (s4, f4))
        in (True, s5, f5))"

definition nvs_storage_emergency_save ::
  "nvs_storage_t \<Rightarrow> nvs_flash \<Rightarrow> bool \<times> nvs_storage_t \<times> nvs_flash" where
  "nvs_storage_emergency_save storage f =
     (let s1 = storage \<lparr> trip_a_dirty := True, trip_b_dirty := True, lifetime_dirty := True \<rparr>;
          s2 = (if distance_accumulator s1 > 0 \<or> fuel_accumulator s1 > 0
                then s1 \<lparr> trip_a := (trip_a s1)
                            \<lparr> distance_km := distance_km (trip_a s1) + distance_accumulator s1,
                              fuel_used_liters := fuel_used_liters (trip_a s1) + fuel_accumulator s1 \<rparr>,
                          trip_b := (trip_b s1)
                            \<lparr> distance_km := distance_km (trip_b s1) + distance_accumulator s1,
                              fuel_used_liters := fuel_used_liters (trip_b s1) + fuel_accumulator s1 \<rparr>,
                          lifetime := (lifetime s1)
                            \<lparr> total_distance_km := total_distance_km (lifetime s1) + distance_accumulator s1,
                              total_fuel_liters := total_fuel_liters (lifetime s1) + fuel_accumulator s1 \<rparr>,
                          distance_accumulator := 0, fuel_accumulator := 0 \<rparr>
                else s1)
      in nvs_storage_save_all s2 f)"

definition nvs_system_shutdown :: "nvs_storage_t \<Rightarrow> nvs_flash \<Rightarrow> nvs_storage_t \<times> nvs_flash" where
  "nvs_system_shutdown storage f =
     (let s1 = storage \<lparr> system := (system storage) \<lparr> clean_shutdown := True \<rparr> \<rparr>;
          f1 = f \<lparr> ns_system := Some ((open_system f) \<lparr> k_clean_shut := Some True \<rparr>) \<rparr>;
          (r, s2, f2) = nvs_storage_emergency_save s1 f1
      in (s2, f2))"

subsection \<open>Fault-code history\<close>

text \<open>
  The search for the oldest entry:
  \<open>for (i = 0; i < NVS_MAX_DTC_HISTORY; i++) if (dtc_history[i].last_seen < oldest_time) ...\<close>
\<close>

function oldest_loop :: "stored_dtc_t list \<Rightarrow> nat \<Rightarrow> 32 word \<Rightarrow> nat \<Rightarrow> nat" where
  "oldest_loop hist i oldest_time oldest_idx =
     (if i < NVS_MAX_DTC_HISTORY
      then (if last_seen (hist ! i) < oldest_time
            then oldest_loop hist (i + 1) (last_seen (hist ! i)) i
            else oldest_loop hist (i + 1) oldest_time oldest_idx)
      else oldest_idx)"
  by pat_completeness auto
termination
  by (relation "measure (\<lambda>(hist, i, oldest_time, oldest_idx). NVS_MAX_DTC_HISTORY - i)") auto

declare oldest_loop.simps [simp del]

definition nvs_dtc_store ::
  "nvs_storage_t \<Rightarrow> 32 word \<Rightarrow> 8 word \<Rightarrow> 8 word \<Rightarrow> 32 word \<Rightarrow> bool \<Rightarrow> nvs_storage_t" where
  "nvs_dtc_store storage spn_v fmi_v sa ts act =
     (case first_index (\<lambda>d. sd_spn d = spn_v \<and> sd_fmi d = fmi_v \<and> sd_source_address d = sa)
             (take (unat (dtc_count storage)) (dtc_history storage)) of
        Some i \<Rightarrow>
          storage \<lparr> dtc_history := (dtc_history storage)
                      [i := (dtc_history storage ! i)
                              \<lparr> last_seen := ts,
                                occurrence_count := occurrence_count (dtc_history storage ! i) + 1,
                                sd_is_active := act \<rparr>],
                    dtc_dirty := True \<rparr>
      | None \<Rightarrow>
          if unat (dtc_count storage) < NVS_MAX_DTC_HISTORY
          then storage \<lparr> dtc_history := (dtc_history storage)
                           [unat (dtc_count storage) :=
                              (dtc_history storage ! unat (dtc_count storage))
                                \<lparr> sd_spn := spn_v, sd_fmi := fmi_v, sd_source_address := sa,
                                  first_seen := ts, last_seen := ts,
                                  occurrence_count := 1, sd_is_active := act \<rparr>],
                         dtc_count := dtc_count storage + 1,
                         dtc_dirty := True \<rparr>
          else
            let oldest_idx = oldest_loop (dtc_history storage) 0 0xFFFFFFFF 0
            in storage \<lparr> dtc_history := (dtc_history storage)
                            [oldest_idx := (dtc_history storage ! oldest_idx)
                                \<lparr> sd_spn := spn_v, sd_fmi := fmi_v, sd_source_address := sa,
                                  first_seen := ts, last_seen := ts,
                                  occurrence_count := 1, sd_is_active := act \<rparr>],
                          dtc_dirty := True \<rparr>)"

text \<open>A sequence of \<open>nvs_dtc_store\<close> calls, each with (spn, fmi, source address, timestamp, active).\<close>

fun dtc_stores ::
  "nvs_storage_t \<Rightarrow> (32 word \<times> 8 word \<times> 8 word \<times> 32 word \<times> bool) list \<Rightarrow> nvs_storage_t" where
  "dtc_stores storage [] = storage"
| "dtc_stores storage ((spn_v, fmi_v, sa, ts, act) # calls) =
     dtc_stores (nvs_dtc_store storage spn_v fmi_v sa ts act) calls"

text \<open>
  The invariant of the search: \<open>oldest_time\<close> is a lower bound of the entries seen so far,
  and either it is the \<open>last_seen\<close> of \<open>oldest_idx\<close>, the first entry that small, or no
  entry has been below the initial \<open>UINT32_MAX\<close> yet.
\<close>

definition oldest_inv :: "stored_dtc_t list \<Rightarrow> nat \<Rightarrow> 32 word \<Rightarrow> nat \<Rightarrow> bool" where
  "oldest_inv hist i t idx \<longleftrightarrow>
     (\<forall>k < i. t \<le> last_seen (hist ! k))
     \<and> ((idx < i \<and> t = last_seen (hist ! idx) \<and> (\<forall>k < idx. t < last_seen (hist ! k)))
        \<or> (idx = 0 \<and> t = 0xFFFFFFFF))"


definition same_dtc :: "32 word \<Rightarrow> 8 word \<Rightarrow> 8 word \<Rightarrow> stored_dtc_t \<Rightarrow> bool" where
  "same_dtc spn_v fmi_v sa d \<longleftrightarrow> sd_spn d = spn_v \<and> sd_fmi d = fmi_v \<and> sd_source_address d = sa"

section \<open>Concrete states used as witnesses\<close>

definition ex_item :: "nat \<Rightarrow> bool \<Rightarrow> alert_level_t \<Rightarrow> watch_item_t" where
  "ex_item pid en al =
     \<lparr> param_id = pid, widget_type = WIDGET_GAUGE_LINEAR, page = 0, position = 0,
       decimal_places = 1, warn_low = 70, warn_high = 100, crit_low = 50, crit_high = 110,
       use_custom_label = False, custom_label = [], custom_unit = [],
       gauge_min = 40, gauge_max = 120, enabled = en, current_alert = al \<rparr>"

definition ex_wlm :: watch_list_manager_t where
  "ex_wlm = \<lparr> items = [ex_item 4 True ALERT_CRITICAL, ex_item 6 False ALERT_WARNING],
              item_count = 2, current_page = 0, wl_initialized = True \<rparr>"

text \<open>
  The store after coolant temperature 120 has been recorded at time 10, and the same store
  after \<open>data_manager_invalidate\<close> on that parameter.
\<close>

definition ex_dm_valid :: data_manager_t where
  "ex_dm_valid = data_manager_init
     \<lparr> parameters := (parameters data_manager_init)
         [4 := \<lparr> p_value = 120, p_prev_value = 0, p_timestamp_ms = 10, p_update_count = 1,
                 p_source = SOURCE_J1939, p_is_valid = True \<rparr>],
       total_updates := 1 \<rparr>"

definition ex_dm_invalid :: data_manager_t where
  "ex_dm_invalid = ex_dm_valid
     \<lparr> parameters := (parameters ex_dm_valid)
         [4 := \<lparr> p_value = 120, p_prev_value = 0, p_timestamp_ms = 10, p_update_count = 1,
                 p_source = SOURCE_J1939, p_is_valid = False \<rparr>] \<rparr>"

text \<open>
  A watch list with the coolant item and the battery-voltage item as
  \<open>watch_list_setup_defaults\<close> adds it (page 3, position 0, thresholds 12.0, 15.0, 11.5,
  15.5), and a store of 128 records, the size that config.h asks for.
\<close>

definition ex_battery_wlm :: watch_list_manager_t where
  "ex_battery_wlm =
     \<lparr> items = [ex_item PARAM_COOLANT_TEMP True ALERT_CRITICAL,
                (ex_item PARAM_BATTERY_VOLTAGE True ALERT_WARNING)
                  \<lparr> widget_type := WIDGET_NUMERIC, page := 3, position := 0,
                    warn_low := 12, warn_high := 15, crit_low := 23 / 2, crit_high := 31 / 2,
                    gauge_min := 0, gauge_max := 100 \<rparr>],
       item_count = 2, current_page = 0, wl_initialized = True \<rparr>"

definition ex_dm_128 :: data_manager_t where
  "ex_dm_128 = data_manager_init
     \<lparr> parameters := replicate 128
         \<lparr> p_value = 0, p_prev_value = 0, p_timestamp_ms = 0, p_update_count = 0,
           p_source = SOURCE_UNKNOWN, p_is_valid = False \<rparr> \<rparr>"


definition dm1_example :: "8 word list" where
  "dm1_example = [0x00, 0x10, 0x6E, 0x00, 0x00, 0x01, 0xFF, 0xFF]"


definition flash0 :: nvs_flash where
  "flash0 = \<lparr> ns_trip_a = None, ns_trip_b = None, ns_lifetime = None, ns_settings = None,
              ns_fault_log = None, ns_system = None \<rparr>"

definition boot1 :: "bool \<times> nvs_storage_t \<times> nvs_flash" where
  "boot1 = nvs_storage_init flash0"

definition down1 :: "nvs_storage_t \<times> nvs_flash" where
  "down1 = nvs_system_shutdown (fst (snd boot1)) (snd (snd boot1))"

definition boot2_clean :: "bool \<times> nvs_storage_t \<times> nvs_flash" where
  "boot2_clean = nvs_storage_init (snd down1)"

definition boot2_crash :: "bool \<times> nvs_storage_t \<times> nvs_flash" where
  "boot2_crash = nvs_storage_init (snd (snd boot1))"

definition ex_dtc :: "32 word \<Rightarrow> 32 word \<Rightarrow> stored_dtc_t" where
  "ex_dtc s t =
     \<lparr> sd_spn = s, sd_fmi = 3, sd_source_address = 0, first_seen = t, last_seen = t,
       occurrence_count = 1, sd_is_active = True \<rparr>"

definition full_storage :: nvs_storage_t where
  "full_storage = storage_defaults
     \<lparr> dtc_history := [ex_dtc 100 9, ex_dtc 101 4, ex_dtc 102 7] @ replicate 17 (ex_dtc 200 4),
       dtc_count := 20 \<rparr>"

definition tp_frame :: "32 word \<Rightarrow> 8 word \<Rightarrow> 8 word list \<Rightarrow> 32 word \<Rightarrow> j1939_message_t" where
  "tp_frame g sa bytes t =
     \<lparr> m_pgn = g, m_source_address = sa, m_destination = 0xFF, m_priority = 7,
       m_data = bytes, m_data_length = 8, m_timestamp_ms = t \<rparr>"

definition bam_ex :: j1939_message_t where
  "bam_ex = tp_frame 60416 0 [32, 14, 0, 2, 0xFF, 0xCA, 0xFE, 0] 0"

definition dt1_ex :: j1939_message_t where
  "dt1_ex = tp_frame 60160 0 [1, 0xA1, 0xA2, 0xA3, 0xA4, 0xA5, 0xA6, 0xA7] 50"

definition dt2_ex :: j1939_message_t where
  "dt2_ex = tp_frame 60160 0 [2, 0xA8, 0xA9, 0xAA, 0xAB, 0xAC, 0xAD, 0xAE] 100"

definition bam_zero :: j1939_message_t where
  "bam_zero = tp_frame 60416 0 [32, 0, 0, 0, 0xFF, 0xCA, 0xFE, 0] 0"

definition busy_session :: "8 word \<Rightarrow> tp_session_t" where
  "busy_session sa =
     \<lparr> tp_state = TP_STATE_RECEIVING, target_pgn = 65226, tp_source_address = sa,
       total_size = 14, total_packets = 2, received_packets = 0,
       tp_buffer = replicate J1939_TP_MAX_LENGTH 0xFF, last_packet_time_ms = 0 \<rparr>"

definition busy_ctx :: j1939_parser_context_t where
  "busy_ctx = j1939_parser_init
     \<lparr> tp_sessions := [busy_session 1, busy_session 2, busy_session 3, busy_session 4] \<rparr>"

definition after_bam_zero :: j1939_parser_context_t where
  "after_bam_zero = snd (tp_handle_frames j1939_parser_init [bam_zero])"

text \<open>
  Two J1708 messages of MID 128 with their time stamps: coolant temperature (PID 110) and
  road speed (PID 84), 97 ms apart.
\<close>

definition j1708_ex1 :: "(8 word \<times> 32 word) list" where
  "j1708_ex1 = [(128, 0), (110, 1), (212, 2), (62, 3)]"

definition j1708_ex2 :: "(8 word \<times> 32 word) list" where
  "j1708_ex2 = [(128, 100), (84, 101), (120, 102), (180, 103)]"
section \<open>Identifier round trip\<close>

lemma mask_consts:
  "(0xFF :: 'a::len word) = mask 8"
  "(0x03 :: 'a::len word) = mask 2"
  "(0x07 :: 'a::len word) = mask 3"
  by (simp_all add: mask_eq_exp_minus_1)

lemma pgn_bits:
  fixes pgn :: "32 word"
  assumes "pgn < 2 ^ 18"
  shows "\<forall>n. bit pgn n \<longrightarrow> n < 18"
proof (intro allI impI)
  fix n assume b: "bit pgn n"
  have "pgn AND mask 18 = pgn" using assms by (simp add: less_mask_eq)
  then have "bit (pgn AND mask 18) n" using b by simp
  then show "n < 18" by (simp add: bit_simps)
qed

lemma prio_bits:
  fixes p :: "8 word"
  assumes "p < 8"
  shows "\<forall>n. bit p n \<longrightarrow> n < 3"
proof (intro allI impI)
  fix n assume b: "bit p n"
  have "p < 2 ^ 3" using assms by simp
  then have "p AND mask 3 = p" by (simp add: less_mask_eq)
  then have "bit (p AND mask 3) n" using b by simp
  then show "n < 3" by (simp add: bit_simps)
qed

lemma byte_bits: "\<forall>n. bit (b :: 8 word) n \<longrightarrow> n < 8"
  by (auto dest: bit_imp_le_length)

lemma built_pdu_format:
  "pgn < 2 ^ 18 \<Longrightarrow>
   (ucast (drop_bit 16 (j1939_build_can_id pgn sa pr) AND 0xFF) :: 8 word) = ucast (drop_bit 8 pgn)"
  unfolding j1939_build_can_id_def mask_consts
  apply (rule bit_word_eqI)
  using pgn_bits[of pgn] byte_bits[of sa] byte_bits[of pr]
  apply (fastforce simp: bit_simps)
  done

lemma built_pdu_specific:
  "pgn < 2 ^ 18 \<Longrightarrow>
   (ucast (drop_bit 8 (j1939_build_can_id pgn sa pr) AND 0xFF) :: 8 word) = ucast pgn"
  unfolding j1939_build_can_id_def mask_consts
  apply (rule bit_word_eqI)
  using pgn_bits[of pgn] byte_bits[of sa] byte_bits[of pr]
  apply (fastforce simp: bit_simps)
  done

lemma built_data_page:
  "pgn < 2 ^ 18 \<Longrightarrow>
   (ucast (drop_bit 24 (j1939_build_can_id pgn sa pr) AND 0x03) :: 8 word) = ucast (drop_bit 16 pgn)"
  unfolding j1939_build_can_id_def mask_consts
  apply (rule bit_word_eqI)
  using pgn_bits[of pgn] byte_bits[of sa] byte_bits[of pr]
  apply (fastforce simp: bit_simps)
  done

lemma pgn_recompose:
  "pgn < 2 ^ 18 \<Longrightarrow>
   push_bit 16 (ucast (ucast (drop_bit 16 pgn) :: 8 word) :: 32 word)
     OR push_bit 8 (ucast (ucast (drop_bit 8 pgn) :: 8 word) :: 32 word)
     OR ucast (ucast pgn :: 8 word) = (pgn :: 32 word)"
proof (rule bit_word_eqI)
  fix n assume p: "pgn < 2 ^ 18" and n: "n < LENGTH(32)"
  have b: "bit pgn n \<Longrightarrow> n < 18" using pgn_bits[OF p] by blast
  show "bit (push_bit 16 (ucast (ucast (drop_bit 16 pgn) :: 8 word) :: 32 word)
              OR push_bit 8 (ucast (ucast (drop_bit 8 pgn) :: 8 word) :: 32 word)
              OR ucast (ucast pgn :: 8 word)) n = bit pgn n"
  proof (cases "n < 8")
    case True then show ?thesis by (auto simp: bit_simps)
  next
    case False
    show ?thesis
    proof (cases "n < 16")
      case True with False show ?thesis by (auto simp: bit_simps)
    next
      case False with b show ?thesis by (auto simp: bit_simps)
    qed
  qed
qed

lemma built_source_address:
  "pgn < 2 ^ 18 \<Longrightarrow> j1939_extract_source_address (j1939_build_can_id pgn sa pr) = sa"
  unfolding j1939_build_can_id_def j1939_extract_source_address_def mask_consts
  apply (rule bit_word_eqI)
  using pgn_bits[of pgn] byte_bits[of sa] byte_bits[of pr]
  apply (fastforce simp: bit_simps)
  done

lemma built_priority:
  "pgn < 2 ^ 18 \<Longrightarrow> pr < 8 \<Longrightarrow> j1939_extract_priority (j1939_build_can_id pgn sa pr) = pr"
  unfolding j1939_build_can_id_def j1939_extract_priority_def mask_consts
  apply (rule bit_word_eqI)
  using pgn_bits[of pgn] byte_bits[of sa] prio_bits[of pr]
  apply (fastforce simp: bit_simps)
  done

text \<open>
  Claim C2. For every \<open>pgn < 2^18\<close>, every 8-bit source address and every priority below 8,
  the identifier built by \<open>j1939_build_can_id\<close> decodes back to the same PGN when the PGN is
  of PDU2 form (its PF byte, bits 15..8 of the PGN, is at least 240), and decodes back to the
  same source address and priority for every PGN.
\<close>

theorem pgn_round_trip:
  assumes "pgn < 2 ^ 18" and "priority < 8"
  shows "(240 \<le> (ucast (drop_bit 8 pgn) :: 8 word) \<longrightarrow>
            j1939_extract_pgn (j1939_build_can_id pgn sa priority) = pgn)
       \<and> j1939_extract_source_address (j1939_build_can_id pgn sa priority) = sa
       \<and> j1939_extract_priority (j1939_build_can_id pgn sa priority) = priority"
  using assms
  by (simp add: j1939_extract_pgn_def built_pdu_format built_pdu_specific built_data_page
        pgn_recompose built_source_address built_priority Let_def not_less[symmetric])

theorem pgn_round_trip_witness:
  "(65262 :: 32 word) < 2 ^ 18 \<and> (6 :: 8 word) < 8
   \<and> 240 \<le> (ucast (drop_bit 8 (65262 :: 32 word)) :: 8 word)
   \<and> j1939_build_can_id 65262 0x21 6 = 0x18FEEE21
   \<and> j1939_extract_pgn (j1939_build_can_id 65262 0x21 6) = 65262
   \<and> j1939_extract_source_address (j1939_build_can_id 65262 0x21 6) = 0x21
   \<and> j1939_extract_priority (j1939_build_can_id 65262 0x21 6) = 6"
  using pgn_round_trip[of 65262 6 "0x21"] by (simp add: j1939_build_can_id_def)


section \<open>First matching slot\<close>

lemma first_index_Some:
  "first_index P xs = Some i \<longleftrightarrow> i < length xs \<and> P (xs ! i) \<and> (\<forall>k < i. \<not> P (xs ! k))"
proof (induction xs arbitrary: i)
  case Nil
  then show ?case by simp
next
  case (Cons x xs)
  show ?case
  proof (cases "P x")
    case True
    then show ?thesis by (cases i) auto
  next
    case False
    show ?thesis
    proof (cases i)
      case 0
      then show ?thesis using False by simp
    next
      case (Suc j)
      have "(\<forall>k < Suc j. \<not> P ((x # xs) ! k)) \<longleftrightarrow> (\<forall>k < j. \<not> P (xs ! k))"
        using False by (auto simp: less_Suc_eq_0_disj)
      then show ?thesis using False Suc Cons.IH[of j] by auto
    qed
  qed
qed

lemma first_index_None: "first_index P xs = None \<longleftrightarrow> (\<forall>k < length xs. \<not> P (xs ! k))"
proof (induction xs)
  case Nil
  then show ?case by simp
next
  case (Cons x xs)
  show ?case using Cons.IH by (auto simp: less_Suc_eq_0_disj)
qed


section \<open>Watch-list severity\<close>

lemma watch_list_update_loop_result:
  assumes "n \<le> length its"
    and "\<forall>j. i \<le> j \<and> j < n \<and> enabled (its ! j)
            \<longrightarrow> data_manager_get dm (param_id (its ! j)) \<noteq> Inl OutOfBounds"
  shows "\<exists>its'. watch_list_update_loop dm i n its = Inr its' \<and> length its' = length its
           \<and> (\<forall>j < length its. its' ! j =
                 (if i \<le> j \<and> j < n then item_after dm (its ! j) else its ! j))"
  using assms
proof (induction dm i n its rule: watch_list_update_loop.induct)
  case (1 dm i n its)
  show ?case
  proof (cases "i < n")
    case False
    then show ?thesis by (subst watch_list_update_loop.simps) auto
  next
    case True
    then have il: "i < length its" using "1.prems" by simp
    define item where "item = its ! i"
    show ?thesis
    proof (cases "enabled item")
      case False
      have pre: "\<forall>j. i + 1 \<le> j \<and> j < n \<and> enabled (its ! j)
            \<longrightarrow> data_manager_get dm (param_id (its ! j)) \<noteq> Inl OutOfBounds"
        using "1.prems"(2) by auto
      from "1.IH"(1)[OF True _ item_def[symmetric, THEN sym] False "1.prems"(1) pre] il
      obtain its' where r: "watch_list_update_loop dm (i + 1) n its = Inr its'"
        "length its' = length its"
        "\<forall>j < length its. its' ! j = (if i + 1 \<le> j \<and> j < n then item_after dm (its ! j) else its ! j)"
        by auto
      have eq: "watch_list_update_loop dm i n its = Inr its'"
        using True il False r(1) by (subst watch_list_update_loop.simps) (simp add: item_def)
      have "\<forall>j < length its. its' ! j = (if i \<le> j \<and> j < n then item_after dm (its ! j) else its ! j)"
      proof (intro allI impI)
        fix j assume j: "j < length its"
        show "its' ! j = (if i \<le> j \<and> j < n then item_after dm (its ! j) else its ! j)"
        proof (cases "j = i")
          case True
          then show ?thesis using r(3) j False by (simp add: item_after_def item_def)
        next
          case False
          then show ?thesis using r(3) j by auto
        qed
      qed
      then show ?thesis using eq r(2) by blast
    next
      case en: True
      have nf: "data_manager_get dm (param_id item) \<noteq> Inl OutOfBounds"
        using "1.prems"(2) True en by (auto simp: item_def)
      define a where "a = (case data_manager_get dm (param_id item) of
                Inr (Some v) \<Rightarrow> check_alert_level item v | _ \<Rightarrow> ALERT_NONE)"
      define its1 where "its1 = its[i := item \<lparr> current_alert := a \<rparr>]"
      obtain r0 where gr: "data_manager_get dm (param_id item) = Inr r0"
        using nf by (cases "data_manager_get dm (param_id item)") (auto intro: fault.exhaust)
      have step: "watch_list_update_loop dm i n its = watch_list_update_loop dm (i + 1) n its1"
        using True il en gr
        by (subst watch_list_update_loop.simps)
           (auto simp: item_def[symmetric] its1_def a_def Let_def split: option.splits)
      have len1: "n \<le> length its1" using "1.prems"(1) by (simp add: its1_def)
      have same: "\<And>j. j \<noteq> i \<Longrightarrow> its1 ! j = its ! j" by (simp add: its1_def)
      have pre: "\<forall>j. i + 1 \<le> j \<and> j < n \<and> enabled (its1 ! j)
            \<longrightarrow> data_manager_get dm (param_id (its1 ! j)) \<noteq> Inl OutOfBounds"
        using "1.prems"(2) same by auto
      have "\<exists>its'. watch_list_update_loop dm (i + 1) n its1 = Inr its' \<and> length its' = length its1
           \<and> (\<forall>j < length its1. its' ! j =
                 (if i + 1 \<le> j \<and> j < n then item_after dm (its1 ! j) else its1 ! j))"
      proof (cases "data_manager_get dm (param_id item)")
        case (Inl e)
        then show ?thesis using nf by (cases e) simp
      next
        case (Inr r)
        show ?thesis
        proof (cases r)
          case None
          have e: "its1 = its[i := item \<lparr> current_alert := ALERT_NONE \<rparr>]"
            using Inr None by (simp add: its1_def a_def)
          show ?thesis
            using "1.IH"(2)[OF True _ item_def[symmetric, THEN sym] _ Inr None] il en len1 pre
            unfolding e[symmetric] by auto
        next
          case (Some v)
          have e: "its1 = its[i := item \<lparr> current_alert := check_alert_level item v \<rparr>]"
            using Inr Some by (simp add: its1_def a_def)
          show ?thesis
            using "1.IH"(3)[OF True _ item_def[symmetric, THEN sym] _ Inr Some] il en len1 pre
            unfolding e[symmetric] by auto
        qed
      qed
      then obtain its' where r: "watch_list_update_loop dm (i + 1) n its1 = Inr its'"
        "length its' = length its1"
        "\<forall>j < length its1. its' ! j = (if i + 1 \<le> j \<and> j < n then item_after dm (its1 ! j) else its1 ! j)"
        by blast
      have "\<forall>j < length its. its' ! j = (if i \<le> j \<and> j < n then item_after dm (its ! j) else its ! j)"
      proof (intro allI impI)
        fix j assume j: "j < length its"
        show "its' ! j = (if i \<le> j \<and> j < n then item_after dm (its ! j) else its ! j)"
        proof (cases "j = i")
          case True
          have "its' ! i = its1 ! i" using r(3) il by (simp add: its1_def)
          also have "\<dots> = item_after dm (its ! i)"
            using il en unfolding its1_def item_after_def a_def item_def by simp
          finally show ?thesis using True \<open>i < n\<close> by simp
        next
          case False
          then show ?thesis using r(3) j same[OF False] by (auto simp: its1_def)
        qed
      qed
      then show ?thesis using step r(1,2) by (simp add: its1_def)
    qed
  qed
qed


text \<open>
  Claim C7. For every value and every threshold tuple the severity computed by
  \<open>check_alert_level\<close> is the one the rule of the specification gives (CRITICAL if
  \<open>v \<le> crit_low\<close> or \<open>v \<ge> crit_high\<close>, else WARNING if \<open>v \<le> warn_low\<close> or
  \<open>v \<ge> warn_high\<close>, else NONE), so it depends on the value and the four thresholds
  only; calling it again after the result has been stored in the item gives the same severity.
\<close>

theorem check_alert_level_rule:
  "check_alert_level item v
     = severity_rule v (warn_low item) (warn_high item) (crit_low item) (crit_high item)
   \<and> check_alert_level (item \<lparr> current_alert := check_alert_level item v \<rparr>) v
     = check_alert_level item v"
  by (simp add: check_alert_level_def severity_rule_def)

text \<open>
  What \<open>watch_list_update\<close> does when the ids of the enabled items lie inside the array of the
  store: an enabled item whose record has \<open>is_valid\<close> false has its severity set to
  \<open>ALERT_NONE\<close>, whatever it was before, and every disabled item is left as it was.
\<close>

lemma get_in_store:
  assumes "pid < length (parameters dm)"
  shows "data_manager_get dm pid \<noteq> Inl OutOfBounds"
    and "\<not> p_is_valid (parameters dm ! pid) \<Longrightarrow> data_manager_get dm pid = Inr None"
    and "dm_initialized dm \<Longrightarrow> pid \<noteq> PARAM_NONE \<Longrightarrow> pid < PARAM_MAX
           \<Longrightarrow> p_is_valid (parameters dm ! pid)
           \<Longrightarrow> data_manager_get dm pid = Inr (Some (p_value (parameters dm ! pid)))"
  using assms by (simp_all add: data_manager_get_def Let_def)

lemma watch_list_update_in_store:
  assumes init: "wl_initialized wlm"
    and cnt: "unat (item_count wlm) \<le> length (items wlm)"
    and rng: "\<forall>j. j < unat (item_count wlm) \<and> enabled (items wlm ! j)
                \<longrightarrow> param_id (items wlm ! j) < length (parameters dm)"
  shows "\<exists>wlm'. watch_list_update wlm (Some dm) now = Inr wlm'
           \<and> length (items wlm') = length (items wlm)
           \<and> (\<forall>j. j < unat (item_count wlm) \<and> enabled (items wlm ! j)
                    \<and> \<not> p_is_valid (parameters dm ! param_id (items wlm ! j))
                  \<longrightarrow> items wlm' ! j = (items wlm ! j) \<lparr> current_alert := ALERT_NONE \<rparr>)
           \<and> (\<forall>j. j < unat (item_count wlm) \<and> enabled (items wlm ! j)
                    \<and> dm_initialized dm \<and> param_id (items wlm ! j) \<noteq> PARAM_NONE
                    \<and> param_id (items wlm ! j) < PARAM_MAX
                    \<and> p_is_valid (parameters dm ! param_id (items wlm ! j))
                  \<longrightarrow> items wlm' ! j = (items wlm ! j)
                        \<lparr> current_alert := check_alert_level (items wlm ! j)
                             (p_value (parameters dm ! param_id (items wlm ! j))) \<rparr>)
           \<and> (\<forall>j. j < length (items wlm) \<and> \<not> enabled (items wlm ! j)
                  \<longrightarrow> items wlm' ! j = items wlm ! j)"
proof -
  have rng': "\<forall>j. 0 \<le> j \<and> j < unat (item_count wlm) \<and> enabled (items wlm ! j)
                \<longrightarrow> data_manager_get dm (param_id (items wlm ! j)) \<noteq> Inl OutOfBounds"
    using rng get_in_store(1) by blast
  from watch_list_update_loop_result[OF cnt rng']
  obtain its' where r: "watch_list_update_loop dm 0 (unat (item_count wlm)) (items wlm) = Inr its'"
    "length its' = length (items wlm)"
    "\<forall>j < length (items wlm). its' ! j =
        (if 0 \<le> j \<and> j < unat (item_count wlm) then item_after dm (items wlm ! j) else items wlm ! j)"
    by auto
  have u: "watch_list_update wlm (Some dm) now = Inr (wlm \<lparr> items := its' \<rparr>)"
    using init r(1) by (simp add: watch_list_update_def)
  have a: "\<forall>j. j < unat (item_count wlm) \<and> enabled (items wlm ! j)
                    \<and> \<not> p_is_valid (parameters dm ! param_id (items wlm ! j))
                  \<longrightarrow> its' ! j = (items wlm ! j) \<lparr> current_alert := ALERT_NONE \<rparr>"
  proof (intro allI impI)
    fix j
    assume h: "j < unat (item_count wlm) \<and> enabled (items wlm ! j)
                    \<and> \<not> p_is_valid (parameters dm ! param_id (items wlm ! j))"
    then have "param_id (items wlm ! j) < length (parameters dm)" using rng by blast
    from get_in_store(2)[OF this] h
    have "data_manager_get dm (param_id (items wlm ! j)) = Inr None" by blast
    then show "its' ! j = (items wlm ! j) \<lparr> current_alert := ALERT_NONE \<rparr>"
      using r(3) cnt h by (simp add: item_after_def)
  qed
  have v: "\<forall>j. j < unat (item_count wlm) \<and> enabled (items wlm ! j)
                    \<and> dm_initialized dm \<and> param_id (items wlm ! j) \<noteq> PARAM_NONE
                    \<and> param_id (items wlm ! j) < PARAM_MAX
                    \<and> p_is_valid (parameters dm ! param_id (items wlm ! j))
                  \<longrightarrow> its' ! j = (items wlm ! j)
                        \<lparr> current_alert := check_alert_level (items wlm ! j)
                             (p_value (parameters dm ! param_id (items wlm ! j))) \<rparr>"
  proof (intro allI impI)
    fix j
    assume h: "j < unat (item_count wlm) \<and> enabled (items wlm ! j)
                    \<and> dm_initialized dm \<and> param_id (items wlm ! j) \<noteq> PARAM_NONE
                    \<and> param_id (items wlm ! j) < PARAM_MAX
                    \<and> p_is_valid (parameters dm ! param_id (items wlm ! j))"
    then have "param_id (items wlm ! j) < length (parameters dm)" using rng by blast
    from get_in_store(3)[OF this] h
    have "data_manager_get dm (param_id (items wlm ! j))
            = Inr (Some (p_value (parameters dm ! param_id (items wlm ! j))))" by blast
    then show "its' ! j = (items wlm ! j)
                        \<lparr> current_alert := check_alert_level (items wlm ! j)
                             (p_value (parameters dm ! param_id (items wlm ! j))) \<rparr>"
      using r(3) cnt h by (simp add: item_after_def)
  qed
  have b: "\<forall>j. j < length (items wlm) \<and> \<not> enabled (items wlm ! j)
                  \<longrightarrow> its' ! j = items wlm ! j"
    using r(3) by (auto simp: item_after_def)
  show ?thesis using u r(2) a v b by simp
qed

text \<open>
  An instance: with coolant temperature 120 recorded, the enabled coolant item is CRITICAL;
  after \<open>data_manager_invalidate\<close> on that parameter the next \<open>watch_list_update\<close> sets it
  to \<open>ALERT_NONE\<close>, and the disabled oil-pressure item keeps its severity.
\<close>

lemma ex_dm_valid_is_update:
  "data_manager_update data_manager_init PARAM_COOLANT_TEMP 120 SOURCE_J1939 10 = Inr (ex_dm_valid, [])"
  by (simp add: data_manager_update_def data_manager_init_def ex_dm_valid_def Let_def
      PARAM_COOLANT_TEMP_def PARAM_NONE_def PARAM_MAX_def DATA_MAX_PARAMETERS_def)

lemma ex_dm_invalid_is_invalidate:
  "data_manager_invalidate ex_dm_valid PARAM_COOLANT_TEMP = Inr ex_dm_invalid"
  by (simp add: data_manager_invalidate_def data_manager_init_def ex_dm_valid_def ex_dm_invalid_def
      PARAM_COOLANT_TEMP_def PARAM_NONE_def PARAM_MAX_def DATA_MAX_PARAMETERS_def)

lemma watch_list_update_after_invalidate:
  "current_alert (items ex_wlm ! 0) = ALERT_CRITICAL
   \<and> (\<exists>wlm'. watch_list_update ex_wlm (Some ex_dm_valid) 20 = Inr wlm'
         \<and> current_alert (items wlm' ! 0) = ALERT_CRITICAL)
   \<and> (\<exists>wlm'. watch_list_update ex_wlm (Some ex_dm_invalid) 30 = Inr wlm'
         \<and> current_alert (items wlm' ! 0) = ALERT_NONE
         \<and> items wlm' ! 1 = items ex_wlm ! 1)"
proof -
  have i: "wl_initialized ex_wlm" by (simp add: ex_wlm_def)
  have c: "unat (item_count ex_wlm) \<le> length (items ex_wlm)" by (simp add: ex_wlm_def)
  have it: "items ex_wlm ! 0 = ex_item 4 True ALERT_CRITICAL"
    "items ex_wlm ! 1 = ex_item 6 False ALERT_WARNING"
    "unat (item_count ex_wlm) = 2" "length (items ex_wlm) = 2"
    by (simp_all add: ex_wlm_def)
  have pl: "length (parameters ex_dm_valid) = 64" "length (parameters ex_dm_invalid) = 64"
    by (simp_all add: ex_dm_valid_def ex_dm_invalid_def data_manager_init_def DATA_MAX_PARAMETERS_def)
  have r: "\<forall>j. j < unat (item_count ex_wlm) \<and> enabled (items ex_wlm ! j)
                \<longrightarrow> param_id (items ex_wlm ! j) < length (parameters dm)"
    if "length (parameters dm) = 64" for dm
  proof (intro allI impI)
    fix j assume "j < unat (item_count ex_wlm) \<and> enabled (items ex_wlm ! j)"
    then have "j < 2" by (simp add: it)
    then have "j = 0 \<or> j = 1" by arith
    moreover have "param_id (items ex_wlm ! 0) < 64" "param_id (items ex_wlm ! 1) < 64"
      by (simp_all add: ex_wlm_def ex_item_def)
    ultimately show "param_id (items ex_wlm ! j) < length (parameters dm)"
      using that by auto
  qed
  have e0: "enabled (items ex_wlm ! 0)" "param_id (items ex_wlm ! 0) = 4"
    "current_alert (items ex_wlm ! 0) = ALERT_CRITICAL"
    and e1: "\<not> enabled (items ex_wlm ! 1)"
    by (simp_all add: ex_wlm_def ex_item_def)
  have pv: "p_is_valid (parameters ex_dm_valid ! 4)" "p_value (parameters ex_dm_valid ! 4) = 120"
    "dm_initialized ex_dm_valid"
    and pi: "\<not> p_is_valid (parameters ex_dm_invalid ! 4)"
    by (simp_all add: ex_dm_valid_def ex_dm_invalid_def data_manager_init_def DATA_MAX_PARAMETERS_def)
  from watch_list_update_in_store[OF i c r[OF pl(1)], of 20]
  obtain w1 where w1: "watch_list_update ex_wlm (Some ex_dm_valid) 20 = Inr w1"
    "\<forall>j. j < unat (item_count ex_wlm) \<and> enabled (items ex_wlm ! j)
                    \<and> dm_initialized ex_dm_valid \<and> param_id (items ex_wlm ! j) \<noteq> PARAM_NONE
                    \<and> param_id (items ex_wlm ! j) < PARAM_MAX
                    \<and> p_is_valid (parameters ex_dm_valid ! param_id (items ex_wlm ! j))
                  \<longrightarrow> items w1 ! j = (items ex_wlm ! j)
                        \<lparr> current_alert := check_alert_level (items ex_wlm ! j)
                             (p_value (parameters ex_dm_valid ! param_id (items ex_wlm ! j))) \<rparr>"
    by blast
  have "items w1 ! 0 = (items ex_wlm ! 0)
          \<lparr> current_alert := check_alert_level (items ex_wlm ! 0)
               (p_value (parameters ex_dm_valid ! param_id (items ex_wlm ! 0))) \<rparr>"
    using w1(2) e0 pv by (simp add: it(3) PARAM_NONE_def PARAM_MAX_def)
  then have a1: "current_alert (items w1 ! 0) = ALERT_CRITICAL"
    by (simp add: e0 pv it ex_item_def check_alert_level_def)
  from watch_list_update_in_store[OF i c r[OF pl(2)], of 30]
  obtain w2 where w2: "watch_list_update ex_wlm (Some ex_dm_invalid) 30 = Inr w2"
    "\<forall>j. j < unat (item_count ex_wlm) \<and> enabled (items ex_wlm ! j)
                    \<and> \<not> p_is_valid (parameters ex_dm_invalid ! param_id (items ex_wlm ! j))
                  \<longrightarrow> items w2 ! j = (items ex_wlm ! j) \<lparr> current_alert := ALERT_NONE \<rparr>"
    "\<forall>j. j < length (items ex_wlm) \<and> \<not> enabled (items ex_wlm ! j)
                  \<longrightarrow> items w2 ! j = items ex_wlm ! j"
    by blast
  have "items w2 ! 0 = (items ex_wlm ! 0) \<lparr> current_alert := ALERT_NONE \<rparr>"
    using w2(2) e0 pi by (simp add: it(3))
  then have a2: "current_alert (items w2 ! 0) = ALERT_NONE" by simp
  have a3: "items w2 ! 1 = items ex_wlm ! 1"
    using w2(3) e1 by (simp add: it(4))
  show ?thesis using e0(3) w1(1) a1 w2(1) a2 a3 by blast
qed

text \<open>
  Claim C10 (for every enabled watch item whose parameter record has no valid value in the
  store, \<open>watch_list_update\<close> sets the severity to NONE; disabled items keep theirs) is what
  the code does for ids inside the store, as shown above, but not for the ids of the
  default watch list. \<open>data_manager_get\<close> checks the id against \<open>PARAM_MAX\<close> (256) and then
  indexes \<open>parameters\<close>, an array of \<open>DATA_MAX_PARAMETERS\<close> (64) records, while
  \<open>data_manager_init\<close> walks the same array up to \<open>DATA_MAX_PARAMETERS\<close>. For the
  battery-voltage item (id 130) of \<open>watch_list_setup_defaults\<close> and a store that holds no
  value at all, the read goes past the end of the array, with 64 records and with the 128
  of config.h alike, so the severity of the item is not determined by the code.
\<close>

theorem watch_list_update_past_store:
  "PARAM_BATTERY_VOLTAGE \<noteq> PARAM_NONE \<and> PARAM_BATTERY_VOLTAGE < PARAM_MAX
   \<and> length (parameters data_manager_init) = 64
   \<and> data_manager_get data_manager_init PARAM_BATTERY_VOLTAGE = Inl OutOfBounds
   \<and> watch_list_update ex_battery_wlm (Some data_manager_init) 0 = Inl OutOfBounds
   \<and> length (parameters ex_dm_128) = 128
   \<and> watch_list_update ex_battery_wlm (Some ex_dm_128) 0 = Inl OutOfBounds"
proof -
  have g: "data_manager_get data_manager_init PARAM_BATTERY_VOLTAGE = Inl OutOfBounds"
    "data_manager_get ex_dm_128 PARAM_BATTERY_VOLTAGE = Inl OutOfBounds"
    "data_manager_get data_manager_init PARAM_COOLANT_TEMP = Inr None"
    "data_manager_get ex_dm_128 PARAM_COOLANT_TEMP = Inr None"
    by (simp_all add: data_manager_get_def data_manager_init_def ex_dm_128_def
        PARAM_BATTERY_VOLTAGE_def PARAM_COOLANT_TEMP_def PARAM_NONE_def PARAM_MAX_def
        DATA_MAX_PARAMETERS_def)
  have l: "watch_list_update_loop dm 0 2 (items ex_battery_wlm) = Inl OutOfBounds"
    if "data_manager_get dm PARAM_BATTERY_VOLTAGE = Inl OutOfBounds"
      and "data_manager_get dm PARAM_COOLANT_TEMP = Inr None" for dm
    using that
    by (simp add: watch_list_update_loop.simps[of dm 0] watch_list_update_loop.simps[of dm "Suc 0"]
        ex_battery_wlm_def ex_item_def Let_def)
  have u: "watch_list_update ex_battery_wlm (Some dm) 0 = Inl OutOfBounds"
    if "data_manager_get dm PARAM_BATTERY_VOLTAGE = Inl OutOfBounds"
      and "data_manager_get dm PARAM_COOLANT_TEMP = Inr None" for dm
    using l[OF that] by (simp add: watch_list_update_def ex_battery_wlm_def)
  have n: "PARAM_BATTERY_VOLTAGE \<noteq> PARAM_NONE" "PARAM_BATTERY_VOLTAGE < PARAM_MAX"
    "length (parameters data_manager_init) = 64" "length (parameters ex_dm_128) = 128"
    by (simp_all add: PARAM_BATTERY_VOLTAGE_def PARAM_NONE_def PARAM_MAX_def
        data_manager_init_def ex_dm_128_def DATA_MAX_PARAMETERS_def)
  show ?thesis using n g(1) u[OF g(1) g(3)] u[OF g(2) g(4)] by blast
qed

section \<open>Parameter store: arrival order\<close>

lemma data_manager_update_stored:
  assumes "dm_initialized dm" "pid \<noteq> PARAM_NONE" "pid < PARAM_MAX" "pid < length (parameters dm)"
  shows "\<exists>dm' ns. data_manager_update dm pid v s t = Inr (dm', ns)
           \<and> dm_initialized dm' \<and> length (parameters dm') = length (parameters dm)
           \<and> p_value (parameters dm' ! pid) = v
           \<and> p_timestamp_ms (parameters dm' ! pid) = t
           \<and> p_is_valid (parameters dm' ! pid)"
  using assms by (simp add: data_manager_update_def Let_def)

text \<open>
  Claim C3, as amended. \<open>data_manager_update\<close> never compares timestamps: for every
  identity inside the store, when two updates of that identity are applied in arrival order,
  the stored value and timestamp are those of the update that arrived last, whatever the two
  timestamps are.
\<close>

theorem last_arrival_wins:
  assumes "dm_initialized dm" "pid \<noteq> PARAM_NONE" "pid < PARAM_MAX" "pid < length (parameters dm)"
  shows "stored_after (data_manager_updates dm [(pid, v1, s1, t1), (pid, v2, s2, t2)]) pid
           = Inr (Some (v2, t2))"
proof -
  from data_manager_update_stored[OF assms, of v1 s1 t1]
  obtain dm1 n1 where 1: "data_manager_update dm pid v1 s1 t1 = Inr (dm1, n1)"
    "dm_initialized dm1" "length (parameters dm1) = length (parameters dm)" by blast
  from data_manager_update_stored[OF 1(2) assms(2,3), of v2 s2 t2] 1(3) assms(4)
  obtain dm2 n2 where 2: "data_manager_update dm1 pid v2 s2 t2 = Inr (dm2, n2)"
    "dm_initialized dm2" "length (parameters dm2) = length (parameters dm1)"
    "p_value (parameters dm2 ! pid) = v2" "p_timestamp_ms (parameters dm2 ! pid) = t2"
    "p_is_valid (parameters dm2 ! pid)" by auto
  have "data_manager_updates dm [(pid, v1, s1, t1), (pid, v2, s2, t2)] = Inr dm2"
    using 1(1) 2(1) by simp
  then show ?thesis
    using 2 1(3) assms by (simp add: stored_after_def data_manager_get_with_timestamp_def)
qed

lemma init_ok: "dm_initialized data_manager_init" "length (parameters data_manager_init) = 64"
  by (simp_all add: data_manager_init_def DATA_MAX_PARAMETERS_def)

theorem last_arrival_wins_witness:
  "dm_initialized data_manager_init \<and> PARAM_COOLANT_TEMP \<noteq> PARAM_NONE
   \<and> PARAM_COOLANT_TEMP < PARAM_MAX
   \<and> PARAM_COOLANT_TEMP < length (parameters data_manager_init)
   \<and> stored_after (data_manager_updates data_manager_init
        [(PARAM_COOLANT_TEMP, 90, SOURCE_J1939, 5000), (PARAM_COOLANT_TEMP, 85, SOURCE_J1708, 4000)])
        PARAM_COOLANT_TEMP = Inr (Some (85, 4000))"
proof -
  have h: "dm_initialized data_manager_init" "PARAM_COOLANT_TEMP \<noteq> PARAM_NONE"
    "PARAM_COOLANT_TEMP < PARAM_MAX" "PARAM_COOLANT_TEMP < length (parameters data_manager_init)"
    by (simp_all add: init_ok PARAM_COOLANT_TEMP_def PARAM_NONE_def PARAM_MAX_def)
  show ?thesis using h last_arrival_wins[OF h, of 90 SOURCE_J1939 5000 85 SOURCE_J1708 4000] by simp
qed

text \<open>
  Claim C3 as stated fails: an update stamped 1000 that arrives after one stamped 2000 is
  not discarded; it overwrites the stored value and timestamp.
\<close>

theorem older_timestamp_not_discarded:
  "stored_after (data_manager_updates data_manager_init
      [(PARAM_ENGINE_SPEED, 1500, SOURCE_J1939, 2000), (PARAM_ENGINE_SPEED, 900, SOURCE_J1708, 1000)])
      PARAM_ENGINE_SPEED = Inr (Some (900, 1000))
   \<and> stored_after (data_manager_updates data_manager_init
      [(PARAM_ENGINE_SPEED, 1500, SOURCE_J1939, 2000), (PARAM_ENGINE_SPEED, 900, SOURCE_J1708, 1000)])
      PARAM_ENGINE_SPEED \<noteq> Inr (Some (1500, 2000))"
  by (simp add: stored_after_def data_manager_update_def data_manager_get_with_timestamp_def
        data_manager_init_def PARAM_ENGINE_SPEED_def PARAM_NONE_def PARAM_MAX_def
        DATA_MAX_PARAMETERS_def DATA_MAX_CALLBACKS_def Let_def)


section \<open>J1708 checksum\<close>

lemma take_bit_8_diff_32:
  "take_bit 8 ((x::int) - take_bit 8 s) = take_bit 8 (take_bit 32 x - s)"
proof -
  have "take_bit 8 (x - take_bit 8 s) = take_bit 8 (take_bit 8 x - take_bit 8 (take_bit 8 s))"
    by (simp only: take_bit_diff)
  also have "\<dots> = take_bit 8 (take_bit 8 (take_bit 32 x) - take_bit 8 s)"
    by simp
  also have "\<dots> = take_bit 8 (take_bit 32 x - s)"
    by (simp only: take_bit_diff)
  finally show ?thesis .
qed

lemma ucast_diff_byte: "(ucast ((x :: 32 word) - ucast (s :: 8 word)) :: 8 word) = ucast x - s"
  by transfer (simp add: take_bit_8_diff_32)

lemma neg_byte: "(ucast ((0x100 :: 32 word) - ucast (s :: 8 word)) :: 8 word) = - s"
  by (simp add: ucast_diff_byte)

lemma foldl_add_byte: "foldl (\<lambda>sum b. sum + b) (a :: 8 word) xs = a + sum_list xs"
  by (induction xs arbitrary: a) (simp_all add: add.assoc)

lemma unat_len_byte: "n \<le> 255 \<Longrightarrow> unat (of_nat n :: 8 word) = n"
  by (simp add: unat_of_nat)

lemma byte_sum_whole: "length xs \<le> 255 \<Longrightarrow> byte_sum xs (of_nat (length xs)) = sum_list xs"
  by (simp add: byte_sum_def foldl_add_byte unat_len_byte)

text \<open>
  Claim C5, as amended. For every non-empty byte sequence of at most 254 bytes (so that the
  sequence with its checksum still has an 8-bit length), appending the byte returned by
  \<open>j1708_calculate_checksum\<close> and passing the result to \<open>j1708_validate_checksum\<close>
  returns true.
\<close>

theorem checksum_round_trip:
  assumes "1 \<le> length xs" and "length xs \<le> 254"
  shows "j1708_validate_checksum (xs @ [j1708_calculate_checksum xs (of_nat (length xs))])
           (of_nat (length xs + 1))"
proof -
  define n :: "8 word" where "n = of_nat (length xs)"
  define n1 :: "8 word" where "n1 = of_nat (length xs + 1)"
  have un: "unat n = length xs" unfolding n_def using assms by (simp add: unat_len_byte)
  have un1: "unat n1 = length xs + 1" unfolding n1_def using assms by (intro unat_len_byte) simp
  have n0: "n \<noteq> 0" using un assms by (metis unat_0 not_one_le_zero)
  have c: "j1708_calculate_checksum xs n = - sum_list xs"
    using assms n0 byte_sum_whole[of xs] by (simp add: j1708_calculate_checksum_def neg_byte n_def)
  have ge: "\<not> n1 < 2" using assms un1 by (auto simp: word_less_nat_alt)
  have "byte_sum (xs @ [- sum_list xs]) n1 = 0"
    using un1 by (simp add: byte_sum_def foldl_add_byte)
  then show ?thesis using ge c unfolding n_def[symmetric] n1_def[symmetric]
    by (simp add: j1708_validate_checksum_def)
qed

theorem checksum_round_trip_witness:
  "1 \<le> length [128, 110, 212 :: 8 word] \<and> length [128, 110, 212 :: 8 word] \<le> 254
   \<and> j1708_calculate_checksum [128, 110, 212] 3 = 62
   \<and> j1708_validate_checksum [128, 110, 212, 62] 4"
  using checksum_round_trip[of "[128, 110, 212]"]
  by (simp add: j1708_calculate_checksum_def byte_sum_def)

text \<open>
  Claim C5 as stated fails on the empty sequence: its checksum is 0, and the one-byte
  sequence that results is rejected by the length guard of \<open>j1708_validate_checksum\<close>.
\<close>

theorem checksum_round_trip_empty:
  "\<not> j1708_validate_checksum ([] @ [j1708_calculate_checksum [] 0]) 1"
  by (simp add: j1708_validate_checksum_def)


section \<open>DM1 parsing\<close>

lemma offsets_step:
  assumes "off + 4 \<le> len"
  shows "map (\<lambda>k. off + 4 * k) [0 ..< (len - off) div 4]
           = off # map (\<lambda>k. (off + 4) + 4 * k) [0 ..< (len - (off + 4)) div 4]"
proof -
  have d: "(len - off) div 4 = Suc ((len - (off + 4)) div 4)"
    using assms by arith
  have "map (\<lambda>k. off + 4 * k) [0 ..< Suc n] = off # map (\<lambda>k. (off + 4) + 4 * k) [0 ..< n]" for n
    by (simp add: upt_rec[of 0] map_Suc_upt[symmetric] del: upt_Suc)
  then show ?thesis using d by simp
qed

lemma offsets_stop:
  assumes "\<not> off + 4 \<le> len"
  shows "map (\<lambda>k. off + 4 * k) [0 ..< (len - off) div 4] = []"
  using assms by simp

lemma emitted_from_step:
  "off + 4 \<le> len \<Longrightarrow> emitted_from dat len off =
     (if no_fault (dm1_record dat off) then [] else [dm1_record dat off]) @ emitted_from dat len (off + 4)"
  unfolding emitted_from_def by (subst offsets_step) simp_all

lemma emitted_from_stop: "\<not> off + 4 \<le> len \<Longrightarrow> emitted_from dat len off = []"
  unfolding emitted_from_def by simp

lemma dm1_loop_result:
  assumes "c \<le> m" and "m \<le> length dtcs"
  shows "\<exists>ds. dm1_loop dat len off dtcs c m
              = (c + length (take (m - c) (emitted_from dat len off)), ds)
           \<and> length ds = length dtcs
           \<and> (\<forall>k < length dtcs. ds ! k =
                 (if c \<le> k \<and> k < c + length (take (m - c) (emitted_from dat len off))
                  then write_dtc (dtcs ! k) (emitted_from dat len off ! (k - c))
                  else dtcs ! k))"
  using assms
proof (induction dat len off dtcs c m rule: dm1_loop.induct)
  case (1 dat len off dtcs c m)
  show ?case
  proof (cases "off + 4 \<le> len \<and> c < m")
    case False
    then have "take (m - c) (emitted_from dat len off) = []"
      using "1.prems" by (auto simp: emitted_from_stop)
    then show ?thesis using False by (subst dm1_loop.simps) auto
  next
    case True
    define r where "r = dm1_record dat off"
    define E' where "E' = emitted_from dat len (off + 4)"
    show ?thesis
    proof (cases "no_fault r")
      case nf: True
      have E: "emitted_from dat len off = E'"
        using True nf by (simp add: emitted_from_step r_def E'_def)
      have step: "dm1_loop dat len off dtcs c m = dm1_loop dat len (off + 4) dtcs c m"
        using True nf
        by (subst dm1_loop.simps)
           (simp add: r_def dm1_record_def no_fault_def dtc_spn_def dtc_fmi_def Let_def)
      have z: "\<not> ((ucast (dat ! off) :: 32 word) OR push_bit 8 (ucast (dat ! (off + 1)))
                   OR push_bit 11 (ucast (dat ! (off + 2) AND 0xE0)) \<noteq> 0
                \<or> dat ! (off + 2) AND 0x1F \<noteq> 0)"
        using nf by (simp add: r_def dm1_record_def no_fault_def dtc_spn_def dtc_fmi_def)
      have "\<exists>ds. dm1_loop dat len (off + 4) dtcs c m
              = (c + length (take (m - c) (emitted_from dat len (off + 4))), ds)
           \<and> length ds = length dtcs
           \<and> (\<forall>k < length dtcs. ds ! k =
                 (if c \<le> k \<and> k < c + length (take (m - c) (emitted_from dat len (off + 4)))
                  then write_dtc (dtcs ! k) (emitted_from dat len (off + 4) ! (k - c))
                  else dtcs ! k))"
        by (rule "1.IH"(2)[OF True refl refl refl z "1.prems"])
      then show ?thesis unfolding step E E'_def .
    next
      case f: False
      have E: "emitted_from dat len off = r # E'"
        using True f by (simp add: emitted_from_step r_def E'_def)
      define dtcs1 where "dtcs1 = dtcs[c := write_dtc (dtcs ! c) r]"
      have step: "dm1_loop dat len off dtcs c m = dm1_loop dat len (off + 4) dtcs1 (c + 1) m"
        using True f
        by (subst dm1_loop.simps)
           (simp add: r_def dm1_record_def no_fault_def dtc_spn_def dtc_fmi_def dtc_oc_def
              Let_def dtcs1_def write_dtc_def)
      have p: "c + 1 \<le> m" "m \<le> length dtcs1" using True "1.prems" by (simp_all add: dtcs1_def)
      have z: "(ucast (dat ! off) :: 32 word) OR push_bit 8 (ucast (dat ! (off + 1)))
                   OR push_bit 11 (ucast (dat ! (off + 2) AND 0xE0)) \<noteq> 0
                \<or> dat ! (off + 2) AND 0x1F \<noteq> 0"
        using f by (simp add: r_def dm1_record_def no_fault_def dtc_spn_def dtc_fmi_def)
      have d1: "dtcs1 = dtcs[c := (dtcs ! c)
                  \<lparr> spn := (ucast (dat ! off) :: 32 word) OR push_bit 8 (ucast (dat ! (off + 1)))
                              OR push_bit 11 (ucast (dat ! (off + 2) AND 0xE0)),
                    fmi := dat ! (off + 2) AND 0x1F, oc := dat ! (off + 3) AND 0x7F,
                    is_active := True \<rparr>]"
        by (simp add: dtcs1_def write_dtc_def r_def dm1_record_def dtc_spn_def dtc_fmi_def dtc_oc_def)
      have "\<exists>ds. dm1_loop dat len (off + 4) dtcs1 (c + 1) m
              = (c + 1 + length (take (m - (c + 1)) (emitted_from dat len (off + 4))), ds)
           \<and> length ds = length dtcs1
           \<and> (\<forall>k < length dtcs1. ds ! k =
                 (if c + 1 \<le> k \<and> k < c + 1 + length (take (m - (c + 1)) (emitted_from dat len (off + 4)))
                  then write_dtc (dtcs1 ! k) (emitted_from dat len (off + 4) ! (k - (c + 1)))
                  else dtcs1 ! k))"
        unfolding d1 by (rule "1.IH"(1)[OF True refl refl refl z p[unfolded d1]])
      then obtain ds where ds: "dm1_loop dat len (off + 4) dtcs1 (c + 1) m
              = (c + 1 + length (take (m - (c + 1)) E'), ds)"
          "length ds = length dtcs1"
          "\<forall>k < length dtcs1. ds ! k =
                 (if c + 1 \<le> k \<and> k < c + 1 + length (take (m - (c + 1)) E')
                  then write_dtc (dtcs1 ! k) (E' ! (k - (c + 1)))
                  else dtcs1 ! k)"
        unfolding E'_def by blast
      have tk: "take (m - c) (r # E') = r # take (m - (c + 1)) E'"
      proof -
        have "m - c = Suc (m - (c + 1))" using True by arith
        then show ?thesis by simp
      qed
      have cl: "c < length dtcs" using True "1.prems" by simp
      have "\<forall>k < length dtcs. ds ! k =
                 (if c \<le> k \<and> k < c + length (take (m - c) (r # E'))
                  then write_dtc (dtcs ! k) ((r # E') ! (k - c))
                  else dtcs ! k)"
      proof (intro allI impI)
        fix k assume k: "k < length dtcs"
        show "ds ! k = (if c \<le> k \<and> k < c + length (take (m - c) (r # E'))
                  then write_dtc (dtcs ! k) ((r # E') ! (k - c)) else dtcs ! k)"
        proof (cases "k = c")
          case True
          then show ?thesis using ds(3) k cl unfolding tk by (simp add: dtcs1_def)
        next
          case False
          then have "dtcs1 ! k = dtcs ! k" by (simp add: dtcs1_def)
          moreover have "(r # E') ! (k - c) = E' ! (k - (c + 1))" if "c < k"
          proof -
            have "k - c = Suc (k - (c + 1))" using that by arith
            then show ?thesis by simp
          qed
          ultimately show ?thesis using ds(3) k False unfolding tk
            by (auto simp: dtcs1_def)
        qed
      qed
      then show ?thesis
        unfolding step E using ds(1,2) tk by (simp add: dtcs1_def)
    qed
  qed
qed


lemma dm1_emitted_from_2: "dm1_emitted dat len = emitted_from dat len 2"
  by (simp add: dm1_emitted_def emitted_from_def dm1_offsets_def)

text \<open>
  Claim C4, as amended. For every DM1 payload of length at least 2, \<open>j1939_parse_dm1\<close>
  takes the 4-byte records at offsets 2, 6, 10, ... that lie inside the payload, skips the
  records with \<open>spn = 0\<close> and \<open>fmi = 0\<close>, and writes the others in order into the caller's
  array, at most \<open>max_dtcs\<close> of them: entry \<open>k\<close> gets
  \<open>spn = b0 | (b1<<8) | ((b2 & 0xE0) << 11)\<close>, \<open>fmi = b2 & 0x1F\<close>, \<open>oc = b3 & 0x7F\<close> and is
  marked active (its source address is left as it was; no conversion-method bit is stored).
  The returned count is the number of entries written.
\<close>

theorem parse_dm1_emits:
  assumes "2 \<le> len" and "unat max_dtcs \<le> length dtcs"
  shows "fst (j1939_parse_dm1 dat len lamps (Some dtcs) max_dtcs)
           = of_nat (length (take (unat max_dtcs) (dm1_emitted dat (unat len))))
       \<and> unat (fst (j1939_parse_dm1 dat len lamps (Some dtcs) max_dtcs))
           = min (unat max_dtcs) (length (dm1_emitted dat (unat len)))
       \<and> (\<exists>ds. snd (snd (j1939_parse_dm1 dat len lamps (Some dtcs) max_dtcs)) = Some ds
             \<and> length ds = length dtcs
             \<and> (\<forall>k < length dtcs. ds ! k =
                   (if k < min (unat max_dtcs) (length (dm1_emitted dat (unat len)))
                    then write_dtc (dtcs ! k) (dm1_emitted dat (unat len) ! k)
                    else dtcs ! k)))"
proof -
  define W where "W = take (unat max_dtcs) (dm1_emitted dat (unat len))"
  have lw: "length W = min (unat max_dtcs) (length (dm1_emitted dat (unat len)))"
    by (simp add: W_def min.commute)
  have l2: "\<not> len < 2" using assms(1) by simp
  have small: "length W < 2 ^ LENGTH(8)"
  proof -
    have "length W \<le> unat max_dtcs" by (simp add: W_def)
    also have "\<dots> < 2 ^ LENGTH(8)" by (rule unsigned_less)
    finally show ?thesis .
  qed
  have uc: "unat (of_nat (length W) :: 8 word) = length W"
    using small by (simp add: unat_of_nat)
  show ?thesis
  proof (cases "max_dtcs = 0")
    case True
    then have "W = []" by (simp add: W_def)
    then show ?thesis using True l2 lw unfolding W_def
      by (auto simp: j1939_parse_dm1_def Let_def)
  next
    case False
    from dm1_loop_result[of 0 "unat max_dtcs" dtcs dat "unat len" 2] assms(2)
    obtain ds where ds: "dm1_loop dat (unat len) 2 dtcs 0 (unat max_dtcs) = (length W, ds)"
      "length ds = length dtcs"
      "\<forall>k < length dtcs. ds ! k =
         (if k < length W then write_dtc (dtcs ! k) (dm1_emitted dat (unat len) ! k) else dtcs ! k)"
      by (auto simp: W_def dm1_emitted_from_2)
    have r: "j1939_parse_dm1 dat len lamps (Some dtcs) max_dtcs
               = (of_nat (length W), fst (snd (j1939_parse_dm1 dat len lamps (Some dtcs) max_dtcs)), Some ds)"
      using False l2 ds(1) by (simp add: j1939_parse_dm1_def Let_def)
    have 1: "fst (j1939_parse_dm1 dat len lamps (Some dtcs) max_dtcs) = of_nat (length W)"
      by (subst r) simp
    have 2: "snd (snd (j1939_parse_dm1 dat len lamps (Some dtcs) max_dtcs)) = Some ds"
      by (subst r) simp
    show ?thesis
      unfolding 1 2 uc using ds(2,3) lw unfolding W_def[symmetric] by simp
  qed
qed

lemma dm1_example_emitted: "dm1_emitted dm1_example 8 = [(110, 0, 1)]"
  by (simp add: dm1_emitted_def dm1_offsets_def dm1_record_def dm1_example_def no_fault_def
        dtc_spn_def dtc_fmi_def dtc_oc_def upt_rec[of 0 1])

theorem parse_dm1_emits_witness:
  "(2 :: 16 word) \<le> 8 \<and> unat (4 :: 8 word) \<le> length (replicate 4 d0)
   \<and> fst (j1939_parse_dm1 dm1_example 8 None (Some (replicate 4 d0)) 4) = 1
   \<and> (\<exists>ds. snd (snd (j1939_parse_dm1 dm1_example 8 None (Some (replicate 4 d0)) 4)) = Some ds
         \<and> ds ! 0 = d0 \<lparr> spn := 110, fmi := 0, oc := 1, is_active := True \<rparr>
         \<and> ds ! 1 = d0)"
proof -
  have h: "(2 :: 16 word) \<le> 8" "unat (4 :: 8 word) \<le> length (replicate 4 d0)" by simp_all
  have u: "unat (8 :: 16 word) = 8" by simp
  from parse_dm1_emits[OF h, of dm1_example None]
  obtain ds where ds: "fst (j1939_parse_dm1 dm1_example 8 None (Some (replicate 4 d0)) 4) = 1"
    "snd (snd (j1939_parse_dm1 dm1_example 8 None (Some (replicate 4 d0)) 4)) = Some ds"
    "\<forall>k < 4. ds ! k = (if k < 1 then write_dtc (replicate 4 d0 ! k) ([(110, 0, 1)] ! k)
                         else replicate 4 d0 ! k)"
    unfolding u dm1_example_emitted by auto
  have "ds ! 0 = d0 \<lparr> spn := 110, fmi := 0, oc := 1, is_active := True \<rparr>"
    using ds(3) by (simp add: write_dtc_def)
  moreover have "ds ! 1 = d0" using ds(3) by simp
  ultimately show ?thesis using h ds(1,2) by simp
qed

text \<open>
  Claim C4 as stated fails for the conversion method: two payloads that differ only in bit 7
  of \<open>b3\<close> (conversion method 1 and 0) give exactly the same result, so the emitted DTC
  does not carry \<open>(b3 >> 7) & 1\<close>.
\<close>

theorem parse_dm1_drops_conversion_method:
  "j1939_parse_dm1 [0x00, 0x00, 0x6E, 0x00, 0x00, 0x81] 6 None (Some [d0]) 1
     = j1939_parse_dm1 [0x00, 0x00, 0x6E, 0x00, 0x00, 0x01] 6 None (Some [d0]) 1
   \<and> dtc_cm 0x81 \<noteq> dtc_cm 0x01"
  by (simp add: j1939_parse_dm1_def dm1_loop.simps dtc_cm_def)


section \<open>Boot and shutdown\<close>

lemma save_all_keeps_system:
  "nvs_storage_save_all s f = (r, s', f') \<Longrightarrow> ns_system f' = ns_system f"
  by (auto simp: nvs_storage_save_all_def Let_def split: if_splits prod.splits)

lemma emergency_save_keeps_system:
  "nvs_storage_emergency_save s f = (r, s', f') \<Longrightarrow> ns_system f' = ns_system f"
  unfolding nvs_storage_emergency_save_def Let_def
  by (rule save_all_keeps_system)

lemma shutdown_system_ns:
  assumes "nvs_system_shutdown st f = (st2, f2)"
  shows "ns_system f2 = Some ((open_system f) \<lparr> k_clean_shut := Some True \<rparr>)"
proof -
  obtain r s' f' where e: "nvs_storage_emergency_save
      (st \<lparr> system := (system st) \<lparr> clean_shutdown := True \<rparr> \<rparr>)
      (f \<lparr> ns_system := Some ((open_system f) \<lparr> k_clean_shut := Some True \<rparr>) \<rparr>) = (r, s', f')"
    by (metis prod_cases3)
  then have "f2 = f'" using assms by (simp add: nvs_system_shutdown_def Let_def)
  then show ?thesis using emergency_save_keeps_system[OF e] by simp
qed

lemma init_system:
  assumes "nvs_storage_init f = (ok, st, f')"
  shows "ns_system f' = Some ((open_system f)
            \<lparr> k_boot_count := Some (boot_count (system st)),
              k_crash_count := Some (crash_count (system st)),
              k_clean_shut := Some False \<rparr>)"
    and "\<not> clean_shutdown (system st)"
    and "ns_system f = Some k \<Longrightarrow> boot_count (system st) = key_or (k_boot_count k) 0 + 1"
    and "ns_system f = Some k \<Longrightarrow> crash_count (system st) =
           (if key_or (k_clean_shut k) True then key_or (k_crash_count k) 0
            else key_or (k_crash_count k) 0 + 1)"
    and "ns_system f = Some k \<Longrightarrow>
           clean_shutdown (system (snd (nvs_storage_load_all storage_defaults f)))
             = key_or (k_clean_shut k) True"
  using assms
  by (auto simp: nvs_storage_init_def nvs_storage_load_all_def Let_def
           split: option.splits prod.splits if_splits)

text \<open>
  Claim C9. Let a boot (\<open>nvs_storage_init\<close> on flash \<open>f0\<close>) give the state \<open>st1\<close> and the
  flash \<open>f1\<close>, and let \<open>f\<close> be the flash later in that session, its \<open>system\<close> namespace
  as the boot left it (only \<open>nvs_storage_init\<close> and \<open>nvs_system_shutdown\<close> write to it).
  The power cycle loses the RAM state and keeps the flash.  If \<open>nvs_system_shutdown\<close> was
  called (on any RAM state \<open>st\<close>) before it, the next \<open>nvs_storage_init\<close> loads
  \<open>clean_shutdown = true\<close> and leaves \<open>crash_count\<close> as it was; if it was not called, the
  next \<open>nvs_storage_init\<close> loads \<open>clean_shutdown = false\<close> and \<open>crash_count\<close> is one
  higher.  In both cases \<open>boot_count\<close> is one higher and \<open>clean_shutdown\<close> is false again
  in RAM and on flash.  All counters are 32-bit and wrap.
\<close>

theorem clean_shutdown_protocol:
  assumes prev: "nvs_storage_init f0 = (ok1, st1, f1)"
    and sys: "ns_system f = ns_system f1"
    and down: "nvs_system_shutdown st f = (st2, f2)"
    and clean: "nvs_storage_init f2 = (ok3, st3, f3)"
    and crash: "nvs_storage_init f = (ok4, st4, f4)"
  shows "clean_shutdown (system (snd (nvs_storage_load_all storage_defaults f2)))
       \<and> crash_count (system st3) = crash_count (system st1)
       \<and> boot_count (system st3) = boot_count (system st1) + 1
       \<and> \<not> clean_shutdown (system st3)
       \<and> (\<exists>k. ns_system f3 = Some k \<and> k_clean_shut k = Some False)
       \<and> \<not> clean_shutdown (system (snd (nvs_storage_load_all storage_defaults f)))
       \<and> crash_count (system st4) = crash_count (system st1) + 1
       \<and> boot_count (system st4) = boot_count (system st1) + 1
       \<and> \<not> clean_shutdown (system st4)
       \<and> (\<exists>k. ns_system f4 = Some k \<and> k_clean_shut k = Some False)"
proof -
  define k1 where "k1 = (open_system f0)
            \<lparr> k_boot_count := Some (boot_count (system st1)),
              k_crash_count := Some (crash_count (system st1)),
              k_clean_shut := Some False \<rparr>"
  have f1: "ns_system f1 = Some k1" using init_system(1)[OF prev] by (simp add: k1_def)
  then have f: "ns_system f = Some k1" using sys by simp
  have f2: "ns_system f2 = Some (k1 \<lparr> k_clean_shut := Some True \<rparr>)"
    using shutdown_system_ns[OF down] f by (simp add: open_system_def)
  have a: "clean_shutdown (system (snd (nvs_storage_load_all storage_defaults f2)))"
    using init_system(5)[OF clean f2] by (simp add: key_or_def)
  have b: "crash_count (system st3) = crash_count (system st1)"
    using init_system(4)[OF clean f2] by (simp add: key_or_def k1_def)
  have c: "boot_count (system st3) = boot_count (system st1) + 1"
    using init_system(3)[OF clean f2] by (simp add: key_or_def k1_def)
  have d: "\<not> clean_shutdown (system st3)" by (rule init_system(2)[OF clean])
  have e: "\<exists>k. ns_system f3 = Some k \<and> k_clean_shut k = Some False"
    using init_system(1)[OF clean] by simp
  have a': "\<not> clean_shutdown (system (snd (nvs_storage_load_all storage_defaults f)))"
    using init_system(5)[OF crash f] by (simp add: key_or_def k1_def)
  have b': "crash_count (system st4) = crash_count (system st1) + 1"
    using init_system(4)[OF crash f] by (simp add: key_or_def k1_def)
  have c': "boot_count (system st4) = boot_count (system st1) + 1"
    using init_system(3)[OF crash f] by (simp add: key_or_def k1_def)
  have d': "\<not> clean_shutdown (system st4)" by (rule init_system(2)[OF crash])
  have e': "\<exists>k. ns_system f4 = Some k \<and> k_clean_shut k = Some False"
    using init_system(1)[OF crash] by simp
  show ?thesis using a b c d e a' b' c' d' e' by blast
qed


lemma boot1_system: "system (fst (snd boot1)) =
    \<lparr> clean_shutdown = False, last_timestamp = 0, boot_count = 1, crash_count = 1,
      pending_distance = 0, pending_fuel = 0 \<rparr>"
  by (simp add: boot1_def nvs_storage_init_def nvs_storage_load_all_def flash0_def
        storage_defaults_def load_trip_def Let_def)

theorem clean_shutdown_protocol_witness:
  "nvs_storage_init flash0 = boot1
   \<and> nvs_system_shutdown (fst (snd boot1)) (snd (snd boot1)) = down1
   \<and> nvs_storage_init (snd down1) = boot2_clean
   \<and> nvs_storage_init (snd (snd boot1)) = boot2_crash
   \<and> crash_count (system (fst (snd boot1))) = 1
   \<and> boot_count (system (fst (snd boot1))) = 1
   \<and> crash_count (system (fst (snd boot2_clean))) = 1
   \<and> boot_count (system (fst (snd boot2_clean))) = 2
   \<and> crash_count (system (fst (snd boot2_crash))) = 2
   \<and> boot_count (system (fst (snd boot2_crash))) = 2
   \<and> \<not> clean_shutdown (system (fst (snd boot2_clean)))
   \<and> \<not> clean_shutdown (system (fst (snd boot2_crash)))"
proof -
  have p: "nvs_storage_init flash0 = (fst boot1, fst (snd boot1), snd (snd boot1))"
    by (simp add: boot1_def)
  have d: "nvs_system_shutdown (fst (snd boot1)) (snd (snd boot1)) = (fst down1, snd down1)"
    by (simp add: down1_def)
  have c: "nvs_storage_init (snd down1) = (fst boot2_clean, fst (snd boot2_clean), snd (snd boot2_clean))"
    by (simp add: boot2_clean_def)
  have k: "nvs_storage_init (snd (snd boot1)) = (fst boot2_crash, fst (snd boot2_crash), snd (snd boot2_crash))"
    by (simp add: boot2_crash_def)
  from clean_shutdown_protocol[OF p refl d c k]
  show ?thesis
    by (simp add: boot1_system boot1_def[symmetric] down1_def[symmetric]
          boot2_clean_def[symmetric] boot2_crash_def[symmetric])
qed


section \<open>Fault-code history\<close>

lemma max_word_le: "(0xFFFFFFFF :: 32 word) \<le> x \<Longrightarrow> x = 0xFFFFFFFF"
proof -
  have m: "(0xFFFFFFFF :: 32 word) = - 1" by simp
  assume "(0xFFFFFFFF :: 32 word) \<le> x"
  then have "x = - 1" unfolding m by (simp add: word_order.extremum_unique)
  then show ?thesis by simp
qed

lemma oldest_loop_min:
  assumes "oldest_inv hist i t idx" and "i \<le> NVS_MAX_DTC_HISTORY"
  shows "oldest_loop hist i t idx < NVS_MAX_DTC_HISTORY
       \<and> (\<forall>k < NVS_MAX_DTC_HISTORY.
             last_seen (hist ! oldest_loop hist i t idx) \<le> last_seen (hist ! k))
       \<and> (\<forall>k < oldest_loop hist i t idx.
             last_seen (hist ! oldest_loop hist i t idx) < last_seen (hist ! k))"
  using assms
proof (induction hist i t idx rule: oldest_loop.induct)
  case (1 hist i t idx)
  show ?case
  proof (cases "i < NVS_MAX_DTC_HISTORY")
    case False
    then have i: "i = NVS_MAX_DTC_HISTORY" using "1.prems"(2) by simp
    have r: "oldest_loop hist i t idx = idx" using False by (subst oldest_loop.simps) simp
    from "1.prems"(1) have all: "\<forall>k < NVS_MAX_DTC_HISTORY. t \<le> last_seen (hist ! k)"
      and dis: "(idx < NVS_MAX_DTC_HISTORY \<and> t = last_seen (hist ! idx)
                  \<and> (\<forall>k < idx. t < last_seen (hist ! k)))
                \<or> (idx = 0 \<and> t = 0xFFFFFFFF)"
      unfolding oldest_inv_def i by auto
    from dis show ?thesis
    proof
      assume "idx < NVS_MAX_DTC_HISTORY \<and> t = last_seen (hist ! idx)
                  \<and> (\<forall>k < idx. t < last_seen (hist ! k))"
      then show ?thesis using all unfolding r by auto
    next
      assume z: "idx = 0 \<and> t = 0xFFFFFFFF"
      then have "\<forall>k < NVS_MAX_DTC_HISTORY. last_seen (hist ! k) = 0xFFFFFFFF"
        using all max_word_le by auto
      then show ?thesis unfolding r using z by (auto simp: NVS_MAX_DTC_HISTORY_def)
    qed
  next
    case True
    show ?thesis
    proof (cases "last_seen (hist ! i) < t")
      case lt: True
      have r: "oldest_loop hist i t idx = oldest_loop hist (i + 1) (last_seen (hist ! i)) i"
        using True lt by (subst oldest_loop.simps) simp
      have "oldest_inv hist (i + 1) (last_seen (hist ! i)) i"
        using "1.prems"(1) lt unfolding oldest_inv_def
        by (auto simp: less_Suc_eq)
      then show ?thesis unfolding r using "1.IH"(1)[OF True lt] True by simp
    next
      case ge: False
      have r: "oldest_loop hist i t idx = oldest_loop hist (i + 1) t idx"
        using True ge by (subst oldest_loop.simps) simp
      have "oldest_inv hist (i + 1) t idx"
        using "1.prems"(1) ge unfolding oldest_inv_def
        by (auto simp: less_Suc_eq)
      then show ?thesis unfolding r using "1.IH"(2)[OF True ge] True by simp
    qed
  qed
qed



lemma nvs_dtc_store_bound:
  assumes "unat (dtc_count st) \<le> NVS_MAX_DTC_HISTORY"
  shows "unat (dtc_count (nvs_dtc_store st spn_v fmi_v sa ts act)) \<le> NVS_MAX_DTC_HISTORY"
proof -
  have "unat (dtc_count st + 1) \<le> NVS_MAX_DTC_HISTORY" if "unat (dtc_count st) < NVS_MAX_DTC_HISTORY"
  proof -
    have "unat (dtc_count st) + 1 < 2 ^ LENGTH(8)" using that by (simp add: NVS_MAX_DTC_HISTORY_def)
    then have "unat (dtc_count st + 1) = unat (dtc_count st) + 1"
      by (metis unat_add_lem unsigned_1)
    then show ?thesis using that by simp
  qed
  then show ?thesis using assms
    by (auto simp: nvs_dtc_store_def Let_def split: option.splits)
qed

lemma nvs_dtc_store_length:
  "length (dtc_history (nvs_dtc_store st spn_v fmi_v sa ts act)) = length (dtc_history st)"
  by (auto simp: nvs_dtc_store_def Let_def split: option.splits)

lemma dtc_stores_bound:
  assumes "unat (dtc_count st) \<le> NVS_MAX_DTC_HISTORY"
  shows "unat (dtc_count (dtc_stores st calls)) \<le> NVS_MAX_DTC_HISTORY"
  using assms
proof (induction calls arbitrary: st)
  case Nil
  then show ?case by simp
next
  case (Cons c calls)
  obtain spn_v fmi_v sa ts act where c: "c = (spn_v, fmi_v, sa, ts, act)" by (cases c)
  show ?case unfolding c using Cons.IH[OF nvs_dtc_store_bound[OF Cons.prems]] by simp
qed

lemma dtc_stores_length:
  "length (dtc_history (dtc_stores st calls)) = length (dtc_history st)"
proof (induction calls arbitrary: st)
  case Nil
  then show ?case by simp
next
  case (Cons c calls)
  obtain spn_v fmi_v sa ts act where c: "c = (spn_v, fmi_v, sa, ts, act)" by (cases c)
  show ?case unfolding c using Cons.IH by (simp add: nvs_dtc_store_length)
qed

text \<open>
  Claim C8. From a storage whose DTC table has its 20 slots and a count of at most 20 (as
  after \<open>nvs_storage_init\<close>), any sequence of \<open>nvs_dtc_store\<close> calls leaves at most 20
  stored entries.  A store whose (spn, fmi, source address) matches a stored entry updates the
  first such entry (\<open>last_seen\<close>, \<open>occurrence_count + 1\<close>, active flag) and appends
  nothing.  A store of a new triple into a full table overwrites exactly one slot, the first
  one whose \<open>last_seen\<close> is the smallest of the table: the entry there is replaced by
  the new fault code (its spn, fmi and source address, \<open>first_seen\<close> and \<open>last_seen\<close>
  the time of the store, an occurrence count of 1, the active flag of the store), and every
  other slot and the count are left as they were.
\<close>

theorem dtc_history_store:
  assumes len: "length (dtc_history st) = NVS_MAX_DTC_HISTORY"
    and cnt: "unat (dtc_count st) \<le> NVS_MAX_DTC_HISTORY"
  shows "unat (dtc_count (dtc_stores st calls)) \<le> NVS_MAX_DTC_HISTORY
       \<and> length (dtc_history (dtc_stores st calls)) = NVS_MAX_DTC_HISTORY
       \<and> (\<forall>i. i < unat (dtc_count st) \<and> same_dtc spn_v fmi_v sa (dtc_history st ! i)
                \<and> (\<forall>k < i. \<not> same_dtc spn_v fmi_v sa (dtc_history st ! k))
              \<longrightarrow> nvs_dtc_store st spn_v fmi_v sa ts act =
                    st \<lparr> dtc_history := (dtc_history st)
                           [i := (dtc_history st ! i)
                              \<lparr> last_seen := ts,
                                occurrence_count := occurrence_count (dtc_history st ! i) + 1,
                                sd_is_active := act \<rparr>],
                         dtc_dirty := True \<rparr>)
       \<and> (unat (dtc_count st) = NVS_MAX_DTC_HISTORY
            \<and> (\<forall>k < NVS_MAX_DTC_HISTORY. \<not> same_dtc spn_v fmi_v sa (dtc_history st ! k))
          \<longrightarrow> (\<exists>j < NVS_MAX_DTC_HISTORY.
                 (\<forall>k < NVS_MAX_DTC_HISTORY. last_seen (dtc_history st ! j) \<le> last_seen (dtc_history st ! k))
               \<and> (\<forall>k < j. last_seen (dtc_history st ! j) < last_seen (dtc_history st ! k))
               \<and> nvs_dtc_store st spn_v fmi_v sa ts act =
                    st \<lparr> dtc_history := (dtc_history st)
                           [j := \<lparr> sd_spn = spn_v, sd_fmi = fmi_v, sd_source_address = sa,
                                first_seen = ts, last_seen = ts, occurrence_count = 1,
                                sd_is_active = act \<rparr>],
                         dtc_dirty := True \<rparr>))"
proof (intro conjI allI impI)
  show "unat (dtc_count (dtc_stores st calls)) \<le> NVS_MAX_DTC_HISTORY"
    by (rule dtc_stores_bound[OF cnt])
  show "length (dtc_history (dtc_stores st calls)) = NVS_MAX_DTC_HISTORY"
    by (simp add: dtc_stores_length len)
next
  fix i
  assume a: "i < unat (dtc_count st) \<and> same_dtc spn_v fmi_v sa (dtc_history st ! i)
                \<and> (\<forall>k < i. \<not> same_dtc spn_v fmi_v sa (dtc_history st ! k))"
  have "first_index (\<lambda>d. sd_spn d = spn_v \<and> sd_fmi d = fmi_v \<and> sd_source_address d = sa)
          (take (unat (dtc_count st)) (dtc_history st)) = Some i"
    unfolding first_index_Some using a len cnt by (auto simp: same_dtc_def)
  then show "nvs_dtc_store st spn_v fmi_v sa ts act =
                    st \<lparr> dtc_history := (dtc_history st)
                           [i := (dtc_history st ! i)
                              \<lparr> last_seen := ts,
                                occurrence_count := occurrence_count (dtc_history st ! i) + 1,
                                sd_is_active := act \<rparr>],
                         dtc_dirty := True \<rparr>"
    by (simp add: nvs_dtc_store_def)
next
  assume a: "unat (dtc_count st) = NVS_MAX_DTC_HISTORY
            \<and> (\<forall>k < NVS_MAX_DTC_HISTORY. \<not> same_dtc spn_v fmi_v sa (dtc_history st ! k))"
  have n: "first_index (\<lambda>d. sd_spn d = spn_v \<and> sd_fmi d = fmi_v \<and> sd_source_address d = sa)
          (take (unat (dtc_count st)) (dtc_history st)) = None"
    unfolding first_index_None using a len by (auto simp: same_dtc_def)
  define j where "j = oldest_loop (dtc_history st) 0 0xFFFFFFFF 0"
  have "oldest_inv (dtc_history st) 0 0xFFFFFFFF 0" by (simp add: oldest_inv_def)
  from oldest_loop_min[OF this] have m: "j < NVS_MAX_DTC_HISTORY"
    "\<forall>k < NVS_MAX_DTC_HISTORY. last_seen (dtc_history st ! j) \<le> last_seen (dtc_history st ! k)"
    "\<forall>k < j. last_seen (dtc_history st ! j) < last_seen (dtc_history st ! k)"
    unfolding j_def by simp_all
  have full: "\<And>d :: stored_dtc_t.
      d \<lparr> sd_spn := spn_v, sd_fmi := fmi_v, sd_source_address := sa, first_seen := ts,
          last_seen := ts, occurrence_count := 1, sd_is_active := act \<rparr>
      = \<lparr> sd_spn = spn_v, sd_fmi = fmi_v, sd_source_address = sa, first_seen = ts,
          last_seen = ts, occurrence_count = 1, sd_is_active = act \<rparr>"
    by simp
  have "nvs_dtc_store st spn_v fmi_v sa ts act =
          st \<lparr> dtc_history := (dtc_history st)[j := \<lparr> sd_spn = spn_v, sd_fmi = fmi_v, sd_source_address = sa,
                                first_seen = ts, last_seen = ts, occurrence_count = 1,
                                sd_is_active = act \<rparr>],
               dtc_dirty := True \<rparr>"
    using n a by (simp add: nvs_dtc_store_def j_def Let_def full)
  then show "\<exists>j < NVS_MAX_DTC_HISTORY.
                 (\<forall>k < NVS_MAX_DTC_HISTORY. last_seen (dtc_history st ! j) \<le> last_seen (dtc_history st ! k))
               \<and> (\<forall>k < j. last_seen (dtc_history st ! j) < last_seen (dtc_history st ! k))
               \<and> nvs_dtc_store st spn_v fmi_v sa ts act =
                    st \<lparr> dtc_history := (dtc_history st)
                           [j := \<lparr> sd_spn = spn_v, sd_fmi = fmi_v, sd_source_address = sa,
                                first_seen = ts, last_seen = ts, occurrence_count = 1,
                                sd_is_active = act \<rparr>],
                         dtc_dirty := True \<rparr>"
    using m by blast
qed


lemma full_storage_history:
  "dtc_history full_storage = [ex_dtc 100 9, ex_dtc 101 4, ex_dtc 102 7] @ replicate 17 (ex_dtc 200 4)"
  "dtc_count full_storage = 20"
  by (simp_all add: full_storage_def)

lemma full_storage_no_match:
  "\<forall>k < NVS_MAX_DTC_HISTORY. \<not> same_dtc 300 3 0 (dtc_history full_storage ! k)"
proof (intro allI impI)
  fix k assume "k < NVS_MAX_DTC_HISTORY"
  then have "dtc_history full_storage ! k \<in> set (dtc_history full_storage)"
    by (intro nth_mem) (simp add: full_storage_history NVS_MAX_DTC_HISTORY_def)
  then show "\<not> same_dtc 300 3 0 (dtc_history full_storage ! k)"
    by (auto simp: full_storage_history same_dtc_def ex_dtc_def)
qed

lemma full_storage_evicts:
  "nvs_dtc_store full_storage 300 3 0 50 True =
     full_storage \<lparr> dtc_history := (dtc_history full_storage)
                      [1 := \<lparr> sd_spn = 300, sd_fmi = 3, sd_source_address = 0,
                                first_seen = 50, last_seen = 50, occurrence_count = 1,
                                sd_is_active = True \<rparr>],
                    dtc_dirty := True \<rparr>"
  by code_simp

theorem dtc_history_store_witness:
  "length (dtc_history full_storage) = NVS_MAX_DTC_HISTORY
   \<and> unat (dtc_count full_storage) = NVS_MAX_DTC_HISTORY
   \<and> unat (dtc_count (dtc_stores full_storage [(300, 3, 0, 50, True), (100, 3, 0, 60, False)]))
       \<le> NVS_MAX_DTC_HISTORY
   \<and> nvs_dtc_store full_storage 102 3 0 60 False =
       full_storage \<lparr> dtc_history := (dtc_history full_storage)
                        [2 := (ex_dtc 102 7) \<lparr> last_seen := 60, occurrence_count := 2,
                                                sd_is_active := False \<rparr>],
                      dtc_dirty := True \<rparr>
   \<and> (\<exists>j < NVS_MAX_DTC_HISTORY.
         (\<forall>k < NVS_MAX_DTC_HISTORY.
            last_seen (dtc_history full_storage ! j) \<le> last_seen (dtc_history full_storage ! k))
       \<and> nvs_dtc_store full_storage 300 3 0 50 True =
            full_storage \<lparr> dtc_history := (dtc_history full_storage)
                             [j := \<lparr> sd_spn = 300, sd_fmi = 3, sd_source_address = 0,
                                first_seen = 50, last_seen = 50, occurrence_count = 1,
                                sd_is_active = True \<rparr>],
                           dtc_dirty := True \<rparr>)
   \<and> nvs_dtc_store full_storage 300 3 0 50 True =
       full_storage \<lparr> dtc_history := (dtc_history full_storage)
                        [1 := \<lparr> sd_spn = 300, sd_fmi = 3, sd_source_address = 0,
                                first_seen = 50, last_seen = 50, occurrence_count = 1,
                                sd_is_active = True \<rparr>],
                      dtc_dirty := True \<rparr>"
proof -
  have l: "length (dtc_history full_storage) = NVS_MAX_DTC_HISTORY"
    by (simp add: full_storage_history NVS_MAX_DTC_HISTORY_def)
  have c: "unat (dtc_count full_storage) \<le> NVS_MAX_DTC_HISTORY"
    and c': "unat (dtc_count full_storage) = NVS_MAX_DTC_HISTORY"
    by (simp_all add: full_storage_history NVS_MAX_DTC_HISTORY_def)
  note t1 = dtc_history_store[OF l c, of "[(300, 3, 0, 50, True), (100, 3, 0, 60, False)]" 102 3 0 60 False]
  note t2 = dtc_history_store[OF l c, of "[]" 300 3 0 50 True]
  have m: "2 < unat (dtc_count full_storage) \<and> same_dtc 102 3 0 (dtc_history full_storage ! 2)
                \<and> (\<forall>k < 2. \<not> same_dtc 102 3 0 (dtc_history full_storage ! k))"
  proof -
    have "\<not> same_dtc 102 3 0 (dtc_history full_storage ! k)" if "k < 2" for k
    proof -
      have "k = 0 \<or> k = 1" using that by arith
      then show ?thesis by (auto simp: full_storage_history same_dtc_def ex_dtc_def)
    qed
    then have "\<forall>k < 2. \<not> same_dtc 102 3 0 (dtc_history full_storage ! k)" by blast
    moreover have "2 < unat (dtc_count full_storage)" by (simp add: full_storage_history)
    moreover have "same_dtc 102 3 0 (dtc_history full_storage ! 2)"
      by (simp add: full_storage_history same_dtc_def ex_dtc_def)
    ultimately show ?thesis by blast
  qed
  have a: "nvs_dtc_store full_storage 102 3 0 60 False =
       full_storage \<lparr> dtc_history := (dtc_history full_storage)
                        [2 := (ex_dtc 102 7) \<lparr> last_seen := 60, occurrence_count := 2,
                                                sd_is_active := False \<rparr>],
                      dtc_dirty := True \<rparr>"
  proof -
    have e2: "dtc_history full_storage ! 2 = ex_dtc 102 7" by (simp add: full_storage_history)
    have occ: "occurrence_count (ex_dtc 102 7) + 1 = 2" by (simp add: ex_dtc_def)
    show ?thesis
      using t1[THEN conjunct2, THEN conjunct2, THEN conjunct1, rule_format, OF m]
      unfolding e2 occ .
  qed
  have b: "\<exists>j < NVS_MAX_DTC_HISTORY.
         (\<forall>k < NVS_MAX_DTC_HISTORY.
            last_seen (dtc_history full_storage ! j) \<le> last_seen (dtc_history full_storage ! k))
       \<and> nvs_dtc_store full_storage 300 3 0 50 True =
            full_storage \<lparr> dtc_history := (dtc_history full_storage)
                             [j := \<lparr> sd_spn = 300, sd_fmi = 3, sd_source_address = 0,
                                first_seen = 50, last_seen = 50, occurrence_count = 1,
                                sd_is_active = True \<rparr>],
                           dtc_dirty := True \<rparr>"
    using t2[THEN conjunct2, THEN conjunct2, THEN conjunct2, rule_format,
             OF conjI[OF c' full_storage_no_match]]
    by blast
  have d: "unat (dtc_count (dtc_stores full_storage [(300, 3, 0, 50, True), (100, 3, 0, 60, False)]))
       \<le> NVS_MAX_DTC_HISTORY"
    by (rule t1[THEN conjunct1])
  show ?thesis using l c' d a b full_storage_evicts by blast
qed


section \<open>Transport-protocol reassembly\<close>

lemma tp_copy_result:
  "length (tp_copy buf dat offset size_total i) = length buf
   \<and> (\<forall>j < length buf. tp_copy buf dat offset size_total i ! j =
         (if offset + i \<le> j \<and> j < offset + 7 \<and> j < size_total
          then dat ! (1 + (j - offset)) else buf ! j))"
proof (induction buf dat offset size_total i rule: tp_copy.induct)
  case (1 buf dat offset size_total i)
  show ?case
  proof (cases "i < 7 \<and> offset + i < size_total")
    case False
    then show ?thesis by (subst (1 2) tp_copy.simps) auto
  next
    case True
    define buf1 where "buf1 = buf[offset + i := dat ! (1 + i)]"
    have r: "tp_copy buf dat offset size_total i = tp_copy buf1 dat offset size_total (i + 1)"
      using True by (subst tp_copy.simps) (simp add: buf1_def)
    have ih: "length (tp_copy buf1 dat offset size_total (i + 1)) = length buf1
       \<and> (\<forall>j < length buf1. tp_copy buf1 dat offset size_total (i + 1) ! j =
             (if offset + (i + 1) \<le> j \<and> j < offset + 7 \<and> j < size_total
              then dat ! (1 + (j - offset)) else buf1 ! j))"
      unfolding buf1_def by (rule "1.IH"[OF True])
    show ?thesis
    proof (intro conjI allI impI)
      show "length (tp_copy buf dat offset size_total i) = length buf"
        unfolding r using ih by (simp add: buf1_def)
    next
      fix j assume j: "j < length buf"
      show "tp_copy buf dat offset size_total i ! j =
         (if offset + i \<le> j \<and> j < offset + 7 \<and> j < size_total
          then dat ! (1 + (j - offset)) else buf ! j)"
      proof (cases "j = offset + i")
        case e: True
        then show ?thesis unfolding r using ih j True by (simp add: buf1_def)
      next
        case ne: False
        then have "buf1 ! j = buf ! j" by (simp add: buf1_def)
        then show ?thesis unfolding r using ih j ne by (auto simp: buf1_def)
      qed
    qed
  qed
qed

lemma first_index_update:
  assumes "k < length xs" and "\<forall>j < k. \<not> P (xs ! j)" and "P y"
  shows "first_index P (xs[k := y]) = Some k"
  unfolding first_index_Some using assms by auto

lemma size16_recompose:
  "(ucast (ucast (S :: 16 word) :: 8 word) :: 16 word)
     OR push_bit 8 (ucast (ucast (drop_bit 8 S) :: 8 word)) = S"
proof (rule bit_word_eqI)
  fix n assume n: "n < LENGTH(16)"
  show "bit ((ucast (ucast S :: 8 word) :: 16 word)
              OR push_bit 8 (ucast (ucast (drop_bit 8 S) :: 8 word))) n = bit S n"
  proof (cases "n < 8")
    case True then show ?thesis by (auto simp: bit_simps)
  next
    case False with n show ?thesis by (auto simp: bit_simps)
  qed
qed

lemma pgn24_bits:
  fixes G :: "32 word"
  assumes "G < 2 ^ 24"
  shows "bit G n \<Longrightarrow> n < 24"
proof -
  assume b: "bit G n"
  have "G AND mask 24 = G" using assms by (simp add: less_mask_eq)
  then have "bit (G AND mask 24) n" using b by simp
  then show "n < 24" by (simp add: bit_simps)
qed

lemma pgn24_recompose:
  assumes "(G :: 32 word) < 2 ^ 24"
  shows "(ucast (ucast G :: 8 word) :: 32 word)
           OR push_bit 8 (ucast (ucast (drop_bit 8 G) :: 8 word))
           OR push_bit 16 (ucast (ucast (drop_bit 16 G) :: 8 word)) = G"
proof (rule bit_word_eqI)
  fix n assume n: "n < LENGTH(32)"
  have b: "bit G n \<Longrightarrow> n < 24" using pgn24_bits[OF assms] .
  show "bit ((ucast (ucast G :: 8 word) :: 32 word)
           OR push_bit 8 (ucast (ucast (drop_bit 8 G) :: 8 word))
           OR push_bit 16 (ucast (ucast (drop_bit 16 G) :: 8 word))) n = bit G n"
  proof (cases "n < 8")
    case True then show ?thesis by (auto simp: bit_simps)
  next
    case False
    show ?thesis
    proof (cases "n < 16")
      case True with False show ?thesis by (auto simp: bit_simps)
    next
      case False with b show ?thesis by (auto simp: bit_simps)
    qed
  qed
qed


lemma find_after_set:
  assumes "find_tp_session ctx sa = Some k"
    and "tp_state s \<noteq> TP_STATE_IDLE" and "tp_source_address s = sa"
  shows "find_tp_session (set_session ctx k s) sa = Some k"
  using assms unfolding find_tp_session_def set_session_def
  by (auto simp: first_index_Some)

lemma bam_step:
  assumes slot: "find_tp_session ctx sa \<noteq> None \<or> allocate_tp_session ctx \<noteq> None"
    and bam: "m_pgn bam = PGN_TP_CM" "m_source_address bam = sa"
      "m_data bam = [TP_CM_BAM, ucast S, ucast (drop_bit 8 S), P, r,
                     ucast G, ucast (drop_bit 8 G), ucast (drop_bit 16 G)]"
      "G < 2 ^ 24"
  shows "\<exists>k ctx0. j1939_tp_handle_frame ctx bam = (False, ctx0)
           \<and> receiving ctx0 k sa S P G (m_timestamp_ms bam) 0 []"
proof -
  define sel where "sel = (case find_tp_session ctx sa of Some k \<Rightarrow> Some k
                           | None \<Rightarrow> allocate_tp_session ctx)"
  from slot obtain k where k: "sel = Some k"
    unfolding sel_def by (cases "find_tp_session ctx sa") auto
  have "k < length (tp_sessions ctx)
      \<and> (\<forall>j < k. \<not> (tp_state (tp_sessions ctx ! j) \<noteq> TP_STATE_IDLE
                      \<and> tp_source_address (tp_sessions ctx ! j) = sa))"
  proof (cases "find_tp_session ctx sa")
    case (Some k')
    then have "k' = k" using k by (simp add: sel_def)
    then show ?thesis using Some unfolding find_tp_session_def by (simp add: first_index_Some)
  next
    case None
    then have a: "allocate_tp_session ctx = Some k" using k by (simp add: sel_def)
    then have kl: "k < length (tp_sessions ctx)"
      unfolding allocate_tp_session_def by (simp add: first_index_Some)
    have "\<forall>j < length (tp_sessions ctx). \<not> (tp_state (tp_sessions ctx ! j) \<noteq> TP_STATE_IDLE
                      \<and> tp_source_address (tp_sessions ctx ! j) = sa)"
      using None unfolding find_tp_session_def by (simp add: first_index_None)
    then show ?thesis using kl by auto
  qed
  then have kl: "k < length (tp_sessions ctx)"
    and nob: "\<forall>j < k. \<not> (tp_state (tp_sessions ctx ! j) \<noteq> TP_STATE_IDLE
                      \<and> tp_source_address (tp_sessions ctx ! j) = sa)"
    by blast+
  define s where "s = (tp_sessions ctx ! k)
       \<lparr> tp_state := TP_STATE_RECEIVING, tp_source_address := sa,
         total_size := S, total_packets := P, target_pgn := G, received_packets := 0,
         last_packet_time_ms := m_timestamp_ms bam,
         tp_buffer := replicate J1939_TP_MAX_LENGTH 0xFF \<rparr>"
  have r: "j1939_tp_handle_frame ctx bam = (False, set_session ctx k s)"
    using k bam unfolding sel_def
    by (simp add: j1939_tp_handle_frame_def s_def size16_recompose pgn24_recompose)
  have f: "find_tp_session (set_session ctx k s) sa = Some k"
    unfolding find_tp_session_def set_session_def
    using kl nob by (simp add: first_index_update s_def)
  have "receiving (set_session ctx k s) k sa S P G (m_timestamp_ms bam) 0 []"
    unfolding receiving_def using f kl by (simp add: set_session_def s_def)
  then show ?thesis using r by blast
qed


lemma dt_payload_nth:
  "length (m_data m) = 8 \<Longrightarrow> i < 7 \<Longrightarrow> dt_payload m ! i = m_data m ! (1 + i)"
  by (simp add: dt_payload_def)

lemma dt_payload_length: "length (m_data m) = 8 \<Longrightarrow> length (dt_payload m) = 7"
  by (simp add: dt_payload_def)

lemma size_bound:
  assumes "unat (P :: 8 word) = (unat (S :: 16 word) + 6) div 7"
  shows "unat S \<le> J1939_TP_MAX_LENGTH" and "unat S \<le> 7 * unat P"
proof -
  have "unat P < 256" using unsigned_less[of P] by simp
  then show "unat S \<le> J1939_TP_MAX_LENGTH" using assms by (simp add: J1939_TP_MAX_LENGTH_def)
  show "unat S \<le> 7 * unat P" using assms by simp
qed

lemma buffer_after_packet:
  assumes len: "length buf = J1939_TP_MAX_LENGTH"
    and pre: "length pre = 7 * recv"
    and agree: "take (min (7 * recv) n) buf = take (min (7 * recv) n) pre"
    and n: "n \<le> J1939_TP_MAX_LENGTH"
    and d: "length (m_data m) = 8"
  shows "take (min (7 * (recv + 1)) n) (tp_copy buf (m_data m) (recv * 7) n 0)
           = take (min (7 * (recv + 1)) n) (pre @ dt_payload m)"
proof (rule nth_equalityI)
  have l: "length (tp_copy buf (m_data m) (recv * 7) n 0) = J1939_TP_MAX_LENGTH"
    using tp_copy_result[of buf "m_data m" "recv * 7" n 0] len by simp
  show "length (take (min (7 * (recv + 1)) n) (tp_copy buf (m_data m) (recv * 7) n 0))
          = length (take (min (7 * (recv + 1)) n) (pre @ dt_payload m))"
    using l n pre dt_payload_length[OF d] by simp
next
  fix j assume "j < length (take (min (7 * (recv + 1)) n) (tp_copy buf (m_data m) (recv * 7) n 0))"
  then have j: "j < 7 * (recv + 1)" "j < n" by simp_all
  then have jb: "j < length buf" using n len by simp
  have c: "tp_copy buf (m_data m) (recv * 7) n 0 ! j =
         (if recv * 7 \<le> j \<and> j < recv * 7 + 7 \<and> j < n
          then m_data m ! (1 + (j - recv * 7)) else buf ! j)"
    using tp_copy_result[of buf "m_data m" "recv * 7" n 0] jb by simp
  show "take (min (7 * (recv + 1)) n) (tp_copy buf (m_data m) (recv * 7) n 0) ! j
          = take (min (7 * (recv + 1)) n) (pre @ dt_payload m) ! j"
  proof (cases "j < 7 * recv")
    case True
    have "buf ! j = take (min (7 * recv) n) buf ! j" using True j by simp
    also have "\<dots> = take (min (7 * recv) n) pre ! j" by (simp only: agree)
    also have "\<dots> = pre ! j" using True j by simp
    finally have "buf ! j = pre ! j" .
    then show ?thesis using True j c pre by (simp add: nth_append)
  next
    case False
    then have "j - recv * 7 < 7" using j by arith
    then have "m_data m ! (1 + (j - recv * 7)) = dt_payload m ! (j - recv * 7)"
      by (simp add: dt_payload_nth[OF d])
    moreover have "j - length pre = j - recv * 7" using pre by (simp add: mult.commute)
    moreover have "\<not> j < length pre" using False pre by simp
    ultimately show ?thesis using False j c by (simp add: nth_append)
  qed
qed


lemma dt_step:
  assumes inv: "receiving ctx k sa S P G t recv pre"
    and sz: "unat P = (unat S + 6) div 7"
    and more: "recv < unat P"
    and fr: "m_pgn m = PGN_TP_DT" "m_source_address m = sa" "length (m_data m) = 8"
            "m_data m ! 0 = of_nat (recv + 1)"
    and tm: "\<not> (m_timestamp_ms m - t > J1939_TP_TIMEOUT_MS)"
  shows "(recv + 1 = unat P \<longrightarrow>
            (\<exists>ctx'. j1939_tp_handle_frame ctx m = (True, ctx')
                   \<and> completed ctx' k sa S G (pre @ dt_payload m)))
       \<and> (recv + 1 \<noteq> unat P \<longrightarrow>
            (\<exists>ctx'. j1939_tp_handle_frame ctx m = (False, ctx')
                   \<and> receiving ctx' k sa S P G (m_timestamp_ms m) (recv + 1) (pre @ dt_payload m)))"
proof -
  let ?s = "tp_sessions ctx ! k"
  from inv have kl: "k < length (tp_sessions ctx)"
    and f: "find_tp_session ctx sa = Some k"
    and st: "tp_state ?s = TP_STATE_RECEIVING"
    and ts: "total_size ?s = S" and tp: "total_packets ?s = P" and tg: "target_pgn ?s = G"
    and rc: "unat (received_packets ?s) = recv"
    and lt: "last_packet_time_ms ?s = t"
    and bl: "length (tp_buffer ?s) = J1939_TP_MAX_LENGTH"
    and pl: "length pre = 7 * recv"
    and ag: "take (min (7 * recv) (unat S)) (tp_buffer ?s) = take (min (7 * recv) (unat S)) pre"
    unfolding receiving_def by simp_all
  have sa: "tp_source_address ?s = sa"
    using f unfolding find_tp_session_def by (simp add: first_index_Some)
  have p256: "unat P < 256" using unsigned_less[of P] by simp
  have sq: "unat (of_nat (recv + 1) :: 8 word) = recv + 1"
  proof -
    have "recv + 1 < 2 ^ LENGTH(8)" using more p256 by simp
    then show ?thesis by (simp only: unat_of_nat mod_less)
  qed
  have rc1: "unat (received_packets ?s + 1) = recv + 1"
  proof -
    have "unat (received_packets ?s) + unat (1 :: 8 word) < 2 ^ LENGTH(8)"
      using rc more p256 by simp
    then have "unat (received_packets ?s + 1) = unat (received_packets ?s) + unat (1 :: 8 word)"
      by (simp only: unat_add_lem[THEN iffD1])
    then show ?thesis using rc by simp
  qed
  define s1 where "s1 = ?s \<lparr> tp_buffer := tp_copy (tp_buffer ?s) (m_data m) (recv * 7) (unat S) 0,
                            received_packets := received_packets ?s + 1,
                            last_packet_time_ms := m_timestamp_ms m \<rparr>"
  have ne: "PGN_TP_DT \<noteq> PGN_TP_CM" by (simp add: PGN_TP_DT_def PGN_TP_CM_def)
  have bl1: "length (tp_buffer s1) = J1939_TP_MAX_LENGTH"
    using tp_copy_result[of "tp_buffer ?s" "m_data m" "recv * 7" "unat S" 0] bl by (simp add: s1_def)
  have ag1: "take (min (7 * (recv + 1)) (unat S)) (tp_buffer s1)
               = take (min (7 * (recv + 1)) (unat S)) (pre @ dt_payload m)"
    using buffer_after_packet[OF bl pl ag size_bound(1)[OF sz] fr(3)] by (simp add: s1_def)
  have cmp: "total_packets ?s \<le> received_packets ?s + 1 \<longleftrightarrow> recv + 1 = unat P"
    using rc1 tp more by (auto simp: word_le_nat_alt)
  have seq: "unat (m_data m ! 0) = Suc recv" using fr(4) sq by simp
  have tm': "\<not> J1939_TP_TIMEOUT_MS < m_timestamp_ms m - last_packet_time_ms ?s"
    using tm lt by simp
  have hf1: "j1939_tp_handle_frame ctx m =
               (True, (set_session ctx k (s1 \<lparr> tp_state := TP_STATE_COMPLETE \<rparr>))
                        \<lparr> tp_complete_count := tp_complete_count ctx + 1 \<rparr>)"
    if "total_packets ?s \<le> received_packets ?s + 1"
    unfolding j1939_tp_handle_frame_def Let_def
    by (simp add: fr(1,2) ne f st tm' seq rc ts that s1_def)
  have hf2: "j1939_tp_handle_frame ctx m = (False, set_session ctx k s1)"
    if "\<not> total_packets ?s \<le> received_packets ?s + 1"
    unfolding j1939_tp_handle_frame_def Let_def
    by (simp add: fr(1,2) ne f st tm' seq rc ts that s1_def)
  have hf: "j1939_tp_handle_frame ctx m =
        (if recv + 1 = unat P
         then (True, (set_session ctx k (s1 \<lparr> tp_state := TP_STATE_COMPLETE \<rparr>))
                       \<lparr> tp_complete_count := tp_complete_count ctx + 1 \<rparr>)
         else (False, set_session ctx k s1))"
    using hf1 hf2 cmp by (cases "recv + 1 = unat P") simp_all
  show ?thesis
  proof (intro conjI impI)
    assume last: "recv + 1 = unat P"
    define c1 where "c1 = (set_session ctx k (s1 \<lparr> tp_state := TP_STATE_COMPLETE \<rparr>))
                       \<lparr> tp_complete_count := tp_complete_count ctx + 1 \<rparr>"
    have f1: "find_tp_session c1 sa = Some k"
      using find_after_set[OF f, of "s1 \<lparr> tp_state := TP_STATE_COMPLETE \<rparr>"] sa
      by (simp add: c1_def s1_def find_tp_session_def set_session_def)
    have m: "min (7 * (recv + 1)) (unat S) = unat S"
      using size_bound(2)[OF sz] last by simp
    have "completed c1 k sa S G (pre @ dt_payload m)"
      unfolding completed_def using kl f1 ts tg bl1 ag1 m
      by (simp add: c1_def set_session_def s1_def)
    then show "\<exists>ctx'. j1939_tp_handle_frame ctx m = (True, ctx')
                   \<and> completed ctx' k sa S G (pre @ dt_payload m)"
      using hf last by (simp add: c1_def)
  next
    assume nl: "recv + 1 \<noteq> unat P"
    have f1: "find_tp_session (set_session ctx k s1) sa = Some k"
      using find_after_set[OF f, of s1] sa st by (simp add: s1_def)
    have "receiving (set_session ctx k s1) k sa S P G (m_timestamp_ms m) (recv + 1) (pre @ dt_payload m)"
      unfolding receiving_def using kl f1 st ts tp tg rc1 bl1 ag1 pl dt_payload_length[OF fr(3)]
      by (simp add: set_session_def s1_def)
    then show "\<exists>ctx'. j1939_tp_handle_frame ctx m = (False, ctx')
                   \<and> receiving ctx' k sa S P G (m_timestamp_ms m) (recv + 1) (pre @ dt_payload m)"
      using hf nl by simp
  qed
qed


lemma dt_run:
  assumes inv: "receiving ctx k sa S P G t recv pre"
    and sz: "unat P = (unat S + 6) div 7"
    and cnt: "recv + length dts = unat P" and ne: "dts \<noteq> []"
    and fr: "\<forall>i < length dts. m_pgn (dts ! i) = PGN_TP_DT \<and> m_source_address (dts ! i) = sa
               \<and> length (m_data (dts ! i)) = 8 \<and> m_data (dts ! i) ! 0 = of_nat (recv + i + 1)"
    and tm: "within_timeout t (map m_timestamp_ms dts)"
  shows "\<exists>ctx'. tp_handle_frames ctx dts = (replicate (length dts - 1) False @ [True], ctx')
           \<and> completed ctx' k sa S G (pre @ concat (map dt_payload dts))"
  using assms
proof (induction dts arbitrary: ctx t recv pre)
  case Nil
  then show ?case by simp
next
  case (Cons m ms)
  have more: "recv < unat P" using Cons.prems(3) by simp
  have f0: "m_pgn m = PGN_TP_DT" "m_source_address m = sa" "length (m_data m) = 8"
    "m_data m ! 0 = of_nat (recv + 1)"
    using Cons.prems(5)[rule_format, of 0] by simp_all
  have t0: "\<not> (m_timestamp_ms m - t > J1939_TP_TIMEOUT_MS)"
    and t1: "within_timeout (m_timestamp_ms m) (map m_timestamp_ms ms)"
    using Cons.prems(6) by simp_all
  note step = dt_step[OF Cons.prems(1) sz more f0 t0]
  show ?case
  proof (cases "ms = []")
    case True
    then have "recv + 1 = unat P" using Cons.prems(3) by simp
    with step obtain ctx' where "j1939_tp_handle_frame ctx m = (True, ctx')"
      "completed ctx' k sa S G (pre @ dt_payload m)" by blast
    then show ?thesis using True by simp
  next
    case False
    then have "recv + 1 \<noteq> unat P" using Cons.prems(3) by (cases ms) auto
    with step obtain ctx1 where h: "j1939_tp_handle_frame ctx m = (False, ctx1)"
      and r: "receiving ctx1 k sa S P G (m_timestamp_ms m) (recv + 1) (pre @ dt_payload m)"
      by blast
    have c: "(recv + 1) + length ms = unat P" using Cons.prems(3) by simp
    have fr': "\<forall>i < length ms. m_pgn (ms ! i) = PGN_TP_DT \<and> m_source_address (ms ! i) = sa
               \<and> length (m_data (ms ! i)) = 8 \<and> m_data (ms ! i) ! 0 = of_nat ((recv + 1) + i + 1)"
    proof (intro allI impI)
      fix i assume "i < length ms"
      then have "Suc i < length (m # ms)" by simp
      from Cons.prems(5)[rule_format, OF this]
      show "m_pgn (ms ! i) = PGN_TP_DT \<and> m_source_address (ms ! i) = sa
               \<and> length (m_data (ms ! i)) = 8 \<and> m_data (ms ! i) ! 0 = of_nat ((recv + 1) + i + 1)"
        by (simp add: add.commute add.left_commute)
    qed
    from Cons.IH[OF r sz c False fr' t1]
    obtain ctx' where run: "tp_handle_frames ctx1 ms = (replicate (length ms - 1) False @ [True], ctx')"
      and fin: "completed ctx' k sa S G ((pre @ dt_payload m) @ concat (map dt_payload ms))"
      by blast
    have "False # replicate (length ms - 1) False = replicate (length ms) False"
      using False by (cases ms) simp_all
    then have "tp_handle_frames ctx (m # ms) = (replicate (length (m # ms) - 1) False @ [True], ctx')"
      using h run by simp
    then show ?thesis using fin by auto
  qed
qed

lemma get_data_completed:
  assumes c: "completed ctx k sa S G payload"
  shows "j1939_tp_get_data ctx sa (Some p0) (Some out) max_len
           = ((if S < max_len then S else max_len), Some G,
              Some (take (unat (if S < max_len then S else max_len)) payload
                    @ drop (unat (if S < max_len then S else max_len)) out),
              set_session ctx k ((tp_sessions ctx ! k) \<lparr> tp_state := TP_STATE_IDLE \<rparr>))"
proof -
  let ?n = "if S < max_len then S else max_len"
  from c have f: "find_tp_session ctx sa = Some k"
    and st: "tp_state (tp_sessions ctx ! k) = TP_STATE_COMPLETE"
    and ts: "total_size (tp_sessions ctx ! k) = S"
    and tg: "target_pgn (tp_sessions ctx ! k) = G"
    and ag: "take (unat S) (tp_buffer (tp_sessions ctx ! k)) = take (unat S) payload"
    unfolding completed_def by simp_all
  have le: "unat ?n \<le> unat S" by (simp add: word_less_nat_alt)
  have "take (unat ?n) (tp_buffer (tp_sessions ctx ! k))
          = take (unat ?n) (take (unat S) (tp_buffer (tp_sessions ctx ! k)))"
    using le by (simp add: min_def)
  also have "\<dots> = take (unat ?n) (take (unat S) payload)" by (simp only: ag)
  also have "\<dots> = take (unat ?n) payload" using le by (simp add: min_def)
  finally have tk: "take (unat ?n) (tp_buffer (tp_sessions ctx ! k)) = take (unat ?n) payload" .
  show ?thesis
    unfolding j1939_tp_get_data_def Let_def
    using tk by (auto simp: f st ts tg memcpy_def split: if_splits)
qed

text \<open>
  Claim C1, as amended. Let a BAM from source address \<open>sa\<close> announce a total size
  \<open>S \<ge> 1\<close>, \<open>packets = \<lceil>S/7\<rceil>\<close> and the target PGN \<open>G\<close>, and let a slot be
  available for it (a session of \<open>sa\<close> that is not idle, or an idle slot).  If the BAM is
  followed by the data-transfer frames with sequence numbers 1 .. packets, in order, each
  within 750 ms (32-bit difference) of the frame before it, then \<open>j1939_tp_handle_frame\<close>
  returns false for the BAM and for every frame but the last and true for the last, the
  session of \<open>sa\<close> is then complete, and \<open>j1939_tp_get_data\<close> for \<open>sa\<close> returns
  \<open>min S max_len\<close>, writes the announced PGN, copies that many bytes of the concatenated
  payloads into the caller's buffer, and sets the slot to idle.
\<close>

theorem tp_bam_reassembly:
  assumes slot: "find_tp_session ctx sa \<noteq> None \<or> allocate_tp_session ctx \<noteq> None"
    and bam: "m_pgn bam = PGN_TP_CM" "m_source_address bam = sa"
      "m_data bam = [TP_CM_BAM, ucast S, ucast (drop_bit 8 S), P, r,
                     ucast G, ucast (drop_bit 8 G), ucast (drop_bit 16 G)]"
      "G < 2 ^ 24"
    and size: "S \<noteq> 0" "unat P = (unat S + 6) div 7"
    and dts: "length dts = unat P"
      "\<forall>i < length dts. m_pgn (dts ! i) = PGN_TP_DT \<and> m_source_address (dts ! i) = sa
          \<and> length (m_data (dts ! i)) = 8 \<and> m_data (dts ! i) ! 0 = of_nat (i + 1)"
    and time: "within_timeout (m_timestamp_ms bam) (map m_timestamp_ms dts)"
    and buf: "unat max_len \<le> length out"
  shows "\<exists>ctx1 k.
           tp_handle_frames ctx (bam # dts) = (replicate (length dts) False @ [True], ctx1)
         \<and> find_tp_session ctx1 sa = Some k
         \<and> tp_state (tp_sessions ctx1 ! k) = TP_STATE_COMPLETE
         \<and> j1939_tp_get_data ctx1 sa (Some p0) (Some out) max_len
             = ((if S < max_len then S else max_len), Some G,
                Some (take (unat (if S < max_len then S else max_len)) (concat (map dt_payload dts))
                      @ drop (unat (if S < max_len then S else max_len)) out),
                set_session ctx1 k ((tp_sessions ctx1 ! k) \<lparr> tp_state := TP_STATE_IDLE \<rparr>))
         \<and> tp_state (tp_sessions (set_session ctx1 k
                ((tp_sessions ctx1 ! k) \<lparr> tp_state := TP_STATE_IDLE \<rparr>)) ! k) = TP_STATE_IDLE"
proof -
  from bam_step[OF slot bam]
  obtain k ctx0 where b: "j1939_tp_handle_frame ctx bam = (False, ctx0)"
    and r: "receiving ctx0 k sa S P G (m_timestamp_ms bam) 0 []" by blast
  have "unat S \<noteq> 0" using size(1) by (simp add: unat_eq_0)
  then have "unat P \<noteq> 0" using size(2) by simp
  then have ne: "dts \<noteq> []" using dts(1) by auto
  have fr: "\<forall>i < length dts. m_pgn (dts ! i) = PGN_TP_DT \<and> m_source_address (dts ! i) = sa
          \<and> length (m_data (dts ! i)) = 8 \<and> m_data (dts ! i) ! 0 = of_nat (0 + i + 1)"
    using dts(2) by simp
  have cnt: "0 + length dts = unat P" using dts(1) by simp
  from dt_run[OF r size(2) cnt ne fr time]
  obtain ctx1 where run: "tp_handle_frames ctx0 dts = (replicate (length dts - 1) False @ [True], ctx1)"
    and c: "completed ctx1 k sa S G (concat (map dt_payload dts))" by auto
  have "False # replicate (length dts - 1) False = replicate (length dts) False"
    using ne by (cases dts) simp_all
  then have all: "tp_handle_frames ctx (bam # dts) = (replicate (length dts) False @ [True], ctx1)"
    using b run by simp
  have kl: "k < length (tp_sessions ctx1)" using c by (simp add: completed_def)
  have "tp_state (tp_sessions (set_session ctx1 k
                ((tp_sessions ctx1 ! k) \<lparr> tp_state := TP_STATE_IDLE \<rparr>)) ! k) = TP_STATE_IDLE"
    using kl by (simp add: set_session_def)
  then show ?thesis
    using all c get_data_completed[OF c, of p0 out max_len]
    by (auto simp: completed_def)
qed


lemma init_sessions:
  "tp_sessions j1939_parser_init = replicate 4
          \<lparr> tp_state = TP_STATE_IDLE, target_pgn = 0, tp_source_address = 0, total_size = 0,
            total_packets = 0, received_packets = 0,
            tp_buffer = replicate J1939_TP_MAX_LENGTH 0, last_packet_time_ms = 0 \<rparr>"
  by (simp add: j1939_parser_init_def J1939_MAX_ACTIVE_TP_def)

lemma init_allocate: "allocate_tp_session j1939_parser_init = Some 0"
  by (simp add: allocate_tp_session_def init_sessions numeral_eq_Suc)

lemma init_find: "find_tp_session j1939_parser_init sa = None"
  by (simp add: find_tp_session_def init_sessions first_index_None)

lemma bam_zero_run:
  "tp_handle_frames j1939_parser_init [bam_zero]
     = ([False], set_session j1939_parser_init 0
          ((tp_sessions j1939_parser_init ! 0)
             \<lparr> tp_state := TP_STATE_RECEIVING, tp_source_address := 0, total_size := 0,
               total_packets := 0, target_pgn := 65226, received_packets := 0,
               last_packet_time_ms := 0, tp_buffer := replicate J1939_TP_MAX_LENGTH 0xFF \<rparr>))"
  by (simp add: j1939_tp_handle_frame_def bam_zero_def tp_frame_def PGN_TP_CM_def TP_CM_BAM_def
        init_allocate init_find)

lemma after_bam_zero_sessions:
  "tp_sessions after_bam_zero =
     \<lparr> tp_state = TP_STATE_RECEIVING, target_pgn = 65226, tp_source_address = 0, total_size = 0,
       total_packets = 0, received_packets = 0,
       tp_buffer = replicate J1939_TP_MAX_LENGTH 0xFF, last_packet_time_ms = 0 \<rparr>
     # replicate 3
          \<lparr> tp_state = TP_STATE_IDLE, target_pgn = 0, tp_source_address = 0, total_size = 0,
            total_packets = 0, received_packets = 0,
            tp_buffer = replicate J1939_TP_MAX_LENGTH 0, last_packet_time_ms = 0 \<rparr>"
  unfolding after_bam_zero_def bam_zero_run
  by (simp add: set_session_def init_sessions numeral_eq_Suc)

lemma busy_find: "find_tp_session busy_ctx 0 = None" "allocate_tp_session busy_ctx = None"
  by (simp_all add: find_tp_session_def allocate_tp_session_def busy_ctx_def busy_session_def)

text \<open>
  Claim C1 as stated fails in two cases.  A BAM that announces \<open>S = 0\<close> and
  \<open>packets = \<lceil>0/7\<rceil> = 0\<close> is followed by no data frame: the session stays in the
  receiving state, \<open>j1939_tp_get_data\<close> returns 0, does not write the announced PGN 65226
  and leaves the slot as it is.  A BAM that arrives while all four slots hold sessions of
  other source addresses is dropped, and its data frames change nothing.
\<close>

theorem tp_bam_without_packets_or_slot:
  "fst (tp_handle_frames j1939_parser_init [bam_zero]) = [False]
   \<and> find_tp_session after_bam_zero 0 = Some 0
   \<and> tp_state (tp_sessions after_bam_zero ! 0) = TP_STATE_RECEIVING
   \<and> j1939_tp_get_data after_bam_zero 0 (Some 0) (Some [0, 0, 0, 0, 0, 0, 0, 0]) 8
       = (0, Some 0, Some [0, 0, 0, 0, 0, 0, 0, 0], after_bam_zero)
   \<and> tp_handle_frames busy_ctx [bam_ex, dt1_ex, dt2_ex] = ([False, False, False], busy_ctx)"
proof -
  have f: "find_tp_session after_bam_zero 0 = Some 0"
    by (simp add: find_tp_session_def after_bam_zero_sessions)
  have s: "tp_state (tp_sessions after_bam_zero ! 0) = TP_STATE_RECEIVING"
    by (simp add: after_bam_zero_sessions)
  have g: "j1939_tp_get_data after_bam_zero 0 (Some 0) (Some [0, 0, 0, 0, 0, 0, 0, 0]) 8
       = (0, Some 0, Some [0, 0, 0, 0, 0, 0, 0, 0], after_bam_zero)"
    by (simp add: j1939_tp_get_data_def f s)
  have b: "tp_handle_frames busy_ctx [bam_ex, dt1_ex, dt2_ex] = ([False, False, False], busy_ctx)"
    by (simp add: j1939_tp_handle_frame_def bam_ex_def dt1_ex_def dt2_ex_def tp_frame_def
          PGN_TP_CM_def PGN_TP_DT_def TP_CM_BAM_def busy_find)
  have a: "fst (tp_handle_frames j1939_parser_init [bam_zero]) = [False]"
    unfolding bam_zero_run by simp
  show ?thesis using a f s g b by blast
qed

lemma ex_dts:
  "\<forall>i < length [dt1_ex, dt2_ex]. m_pgn ([dt1_ex, dt2_ex] ! i) = PGN_TP_DT
      \<and> m_source_address ([dt1_ex, dt2_ex] ! i) = 0
      \<and> length (m_data ([dt1_ex, dt2_ex] ! i)) = 8
      \<and> m_data ([dt1_ex, dt2_ex] ! i) ! 0 = of_nat (i + 1)"
proof (intro allI impI)
  fix i assume "i < length [dt1_ex, dt2_ex]"
  then have "i = 0 \<or> i = 1" by auto
  then show "m_pgn ([dt1_ex, dt2_ex] ! i) = PGN_TP_DT
      \<and> m_source_address ([dt1_ex, dt2_ex] ! i) = 0
      \<and> length (m_data ([dt1_ex, dt2_ex] ! i)) = 8
      \<and> m_data ([dt1_ex, dt2_ex] ! i) ! 0 = of_nat (i + 1)"
    by (auto simp: dt1_ex_def dt2_ex_def tp_frame_def PGN_TP_DT_def)
qed

theorem tp_bam_reassembly_witness:
  "allocate_tp_session j1939_parser_init \<noteq> None
   \<and> within_timeout (m_timestamp_ms bam_ex) (map m_timestamp_ms [dt1_ex, dt2_ex])
   \<and> (\<exists>ctx1 k.
         tp_handle_frames j1939_parser_init [bam_ex, dt1_ex, dt2_ex] = ([False, False, True], ctx1)
       \<and> find_tp_session ctx1 0 = Some k
       \<and> tp_state (tp_sessions ctx1 ! k) = TP_STATE_COMPLETE
       \<and> j1939_tp_get_data ctx1 0 (Some 0) (Some (replicate 20 0)) 20
           = (14, Some 65226,
              Some ([0xA1, 0xA2, 0xA3, 0xA4, 0xA5, 0xA6, 0xA7, 0xA8, 0xA9, 0xAA, 0xAB, 0xAC, 0xAD, 0xAE]
                    @ replicate 6 0),
              set_session ctx1 k ((tp_sessions ctx1 ! k) \<lparr> tp_state := TP_STATE_IDLE \<rparr>)))"
proof -
  have slot: "find_tp_session j1939_parser_init 0 \<noteq> None \<or> allocate_tp_session j1939_parser_init \<noteq> None"
    by (simp add: init_allocate)
  have b: "m_pgn bam_ex = PGN_TP_CM" "m_source_address bam_ex = 0"
    "m_data bam_ex = [TP_CM_BAM, ucast (14 :: 16 word), ucast (drop_bit 8 (14 :: 16 word)), 2, 0xFF,
                      ucast (65226 :: 32 word), ucast (drop_bit 8 (65226 :: 32 word)),
                      ucast (drop_bit 16 (65226 :: 32 word))]"
    "(65226 :: 32 word) < 2 ^ 24"
    by (simp_all add: bam_ex_def tp_frame_def PGN_TP_CM_def TP_CM_BAM_def)
  have sz: "(14 :: 16 word) \<noteq> 0" "unat (2 :: 8 word) = (unat (14 :: 16 word) + 6) div 7" by simp_all
  have l: "length [dt1_ex, dt2_ex] = unat (2 :: 8 word)" by simp
  have t: "within_timeout (m_timestamp_ms bam_ex) (map m_timestamp_ms [dt1_ex, dt2_ex])"
    by (simp add: bam_ex_def dt1_ex_def dt2_ex_def tp_frame_def J1939_TP_TIMEOUT_MS_def)
  have o: "unat (20 :: 16 word) \<le> length (replicate 20 (0 :: 8 word))" by simp
  have p: "concat (map dt_payload [dt1_ex, dt2_ex])
             = [0xA1, 0xA2, 0xA3, 0xA4, 0xA5, 0xA6, 0xA7, 0xA8, 0xA9, 0xAA, 0xAB, 0xAC, 0xAD, 0xAE]"
    by (simp add: dt_payload_def dt1_ex_def dt2_ex_def tp_frame_def)
  have u: "unat (14 :: 16 word) = 14" by simp
  have r: "take (unat (14 :: 16 word)) [0xA1, 0xA2, 0xA3, 0xA4, 0xA5, 0xA6, 0xA7, 0xA8, 0xA9, 0xAA, 0xAB, 0xAC, 0xAD, 0xAE :: 8 word]
             @ drop (unat (14 :: 16 word)) (replicate 20 0)
           = [0xA1, 0xA2, 0xA3, 0xA4, 0xA5, 0xA6, 0xA7, 0xA8, 0xA9, 0xAA, 0xAB, 0xAC, 0xAD, 0xAE]
             @ replicate 6 0"
    unfolding u by simp
  have i: "(if (14 :: 16 word) < 20 then (14 :: 16 word) else 20) = 14" by simp
  have rp: "replicate (length [dt1_ex, dt2_ex]) False @ [True] = [False, False, True]" by simp
  note th = tp_bam_reassembly[OF slot b sz l ex_dts t o, of 0, unfolded i p r rp]
  from th obtain ctx1 k where
    w: "tp_handle_frames j1939_parser_init [bam_ex, dt1_ex, dt2_ex] = ([False, False, True], ctx1)"
       "find_tp_session ctx1 0 = Some k"
       "tp_state (tp_sessions ctx1 ! k) = TP_STATE_COMPLETE"
       "j1939_tp_get_data ctx1 0 (Some 0) (Some (replicate 20 0)) 20
           = (14, Some 65226,
              Some ([0xA1, 0xA2, 0xA3, 0xA4, 0xA5, 0xA6, 0xA7, 0xA8, 0xA9, 0xAA, 0xAB, 0xAC, 0xAD, 0xAE]
                    @ replicate 6 0),
              set_session ctx1 k ((tp_sessions ctx1 ! k) \<lparr> tp_state := TP_STATE_IDLE \<rparr>))"
    by blast
  have al: "allocate_tp_session j1939_parser_init \<noteq> None" by (simp add: init_allocate)
  show ?thesis using al t w by blast
qed


section \<open>J1708 framer\<close>

lemma byte_sum_prefix:
  assumes "take (unat len) d = take (unat len) d'"
  shows "byte_sum d len = byte_sum d' len"
  unfolding byte_sum_def by (simp only: assms)

lemma validate_prefix:
  assumes "take (unat len) d = take (unat len) d'"
  shows "j1708_validate_checksum d len = j1708_validate_checksum d' len"
  unfolding j1708_validate_checksum_def by (simp only: byte_sum_prefix[OF assms])

lemma nth_prefix:
  assumes "take e d = take e d'" and "i < e"
  shows "d ! i = d' ! i"
proof -
  have "d ! i = take e d ! i" using assms(2) by simp
  also have "\<dots> = take e d' ! i" by (simp only: assms(1))
  also have "\<dots> = d' ! i" using assms(2) by simp
  finally show ?thesis .
qed

lemma take_drop_prefix:
  assumes "take e d = take e d'" and "a + n \<le> e"
  shows "take n (drop a d) = take n (drop a d')"
proof -
  have m: "min n (e - a) = n" using assms(2) by simp
  have "take n (drop a d) = take n (drop a (take e d))"
    by (simp only: drop_take take_take m)
  also have "\<dots> = take n (drop a (take e d'))" by (simp only: assms(1))
  also have "\<dots> = take n (drop a d')"
    by (simp only: drop_take take_take m)
  finally show ?thesis .
qed


lemma parse_params_prefix:
  assumes p: "take e d = take e d'"
  shows "parse_params d off e msg = parse_params d' off e msg"
proof (induction "e - off" arbitrary: off msg rule: less_induct)
  case less
  have ih: "parse_params d off' e msg' = parse_params d' off' e msg'" if "off < off'" "off < e"
    for off' msg'
    using less[of off' msg'] that by simp
  have r: "d ! i = d' ! i" if "i < e" for i using nth_prefix[OF p that] .
  have t: "take n (drop a d) = take n (drop a d')" if "a + n \<le> e" for a n
    using take_drop_prefix[OF p that] .
  note u = parse_params.simps[of d off e msg] parse_params.simps[of d' off e msg]
  show ?case
  proof (cases "off < e \<and> unat (param_count msg) < J1708_MAX_PIDS")
    case False
    then have c: "(off < e \<and> unat (param_count msg) < J1708_MAX_PIDS) = False" by simp
    show ?thesis unfolding u by (simp only: c if_False)
  next
    case True
    then have c: "(off < e \<and> unat (param_count msg) < J1708_MAX_PIDS) = True" by simp
    have o: "off < e" using True by simp
    have r0: "d ! off = d' ! off" by (rule r[OF o])
    show ?thesis
    proof (cases "j1708_get_pid_length (d' ! off) = 0")
      case z: True
      show ?thesis
      proof (cases "off + 1 \<ge> e")
        case True
        show ?thesis unfolding u using True by (simp add: c r0 z Let_def)
      next
        case False
        then have o1: "off + 1 < e" by simp
        have r1: "d ! Suc off = d' ! Suc off" using r[OF o1] by simp
        show ?thesis
        proof (cases "off + 1 + 1 + unat (d' ! (off + 1)) > e")
          case True
          show ?thesis unfolding u using True False by (simp add: c r0 r1 z Let_def)
        next
          case gt: False
          then have le: "(off + 1 + 1) + unat (d' ! (off + 1)) \<le> e" by simp
          have i: "parse_params d (off + 1 + 1 + unat (d' ! (off + 1))) e msg'
                 = parse_params d' (off + 1 + 1 + unat (d' ! (off + 1))) e msg'" for msg'
            by (rule ih[OF _ o]) simp
          show ?thesis unfolding u using gt False t[OF le] i
            by (simp add: c r0 r1 z Let_def memcpy_def)
        qed
      qed
    next
      case nz: False
      show ?thesis
      proof (cases "off + 1 + unat (j1708_get_pid_length (d' ! off)) > e")
        case True
        show ?thesis unfolding u using True by (simp add: c r0 nz Let_def)
      next
        case gt: False
        then have le: "(off + 1) + unat (j1708_get_pid_length (d' ! off)) \<le> e" by simp
        have i: "parse_params d (off + 1 + unat (j1708_get_pid_length (d' ! off))) e msg'
                 = parse_params d' (off + 1 + unat (j1708_get_pid_length (d' ! off))) e msg'" for msg'
          by (rule ih[OF _ o]) simp
        show ?thesis unfolding u using gt t[OF le] i
          by (simp add: c r0 nz Let_def memcpy_def)
      qed
    qed
  qed
qed


lemma parse_message_prefix:
  assumes p: "take (unat len) d = take (unat len) d'"
  shows "j1708_parse_message d len msg = j1708_parse_message d' len msg"
proof (cases "unat len < J1708_MIN_MESSAGE_LENGTH")
  case True
  then show ?thesis by (simp add: j1708_parse_message_def)
next
  case False
  then have l: "0 < unat len" by (simp add: J1708_MIN_MESSAGE_LENGTH_def)
  have d0: "d ! 0 = d' ! 0" by (rule nth_prefix[OF p l])
  have "take (unat len - 1) (take (unat len) d) = take (unat len - 1) (take (unat len) d')"
    by (simp only: p)
  then have p1: "take (unat len - 1) d = take (unat len - 1) d'" by (simp add: min_def)
  show ?thesis
    unfolding j1708_parse_message_def Let_def memcpy_def
    by (simp only: p d0 validate_prefix[OF p] parse_params_prefix[OF p1])
qed

lemma unat_index:
  assumes "unat (i :: 8 word) = n"
  shows "i = of_nat n"
  using assms by (metis of_nat_unat ucast_id)

lemma receive_store:
  assumes "rx_state ctx \<noteq> J1708_RX_COMPLETE"
    and "rx_state ctx = J1708_RX_RECEIVING \<longrightarrow> \<not> (t - last_byte_time_ms ctx > J1708_INTER_BYTE_TIMEOUT_MS)"
    and "unat (buffer_index ctx) < J1708_MAX_MESSAGE_LENGTH"
  shows "j1708_receive_byte ctx b t =
           (False, ctx \<lparr> buffer := (buffer ctx)[unat (buffer_index ctx) := b],
                         buffer_index := buffer_index ctx + 1,
                         last_byte_time_ms := t,
                         rx_state := J1708_RX_RECEIVING \<rparr>)"
  using assms by (auto simp: j1708_receive_byte_def store_byte_def)

lemma index_succ:
  assumes "unat (i :: 8 word) < J1708_MAX_MESSAGE_LENGTH"
  shows "unat (i + 1) = unat i + 1"
proof -
  have "unat i + unat (1 :: 8 word) < 2 ^ LENGTH(8)"
    using assms by (simp add: J1708_MAX_MESSAGE_LENGTH_def)
  then have "unat (i + 1) = unat i + unat (1 :: 8 word)"
    by (simp only: unat_add_lem[THEN iffD1])
  then show ?thesis by simp
qed

lemma holding_step:
  assumes h: "holding ctx m t0"
    and g: "\<not> (t - t0 > J1708_INTER_BYTE_TIMEOUT_MS)"
    and l: "length m < J1708_MAX_MESSAGE_LENGTH"
  shows "\<exists>ctx'. j1708_receive_byte ctx b t = (False, ctx') \<and> holding ctx' (m @ [b]) t
           \<and> messages_received ctx' = messages_received ctx"
proof -
  from h have s: "rx_state ctx = J1708_RX_RECEIVING" and i: "unat (buffer_index ctx) = length m"
    and p: "take (length m) (buffer ctx) = m" and bl: "length (buffer ctx) = J1708_MAX_MESSAGE_LENGTH"
    and lt: "last_byte_time_ms ctx = t0"
    by (simp_all add: holding_def)
  define ctx' where "ctx' = ctx \<lparr> buffer := (buffer ctx)[unat (buffer_index ctx) := b],
                         buffer_index := buffer_index ctx + 1,
                         last_byte_time_ms := t,
                         rx_state := J1708_RX_RECEIVING \<rparr>"
  have r: "j1708_receive_byte ctx b t = (False, ctx')"
    unfolding ctx'_def using s g lt i l by (intro receive_store) simp_all
  have i1: "unat (buffer_index ctx + 1) = length m + 1"
    using index_succ[of "buffer_index ctx"] i l by simp
  have "take (length m + 1) ((buffer ctx)[length m := b]) = m @ [b]"
  proof -
    have "take (length m + 1) ((buffer ctx)[length m := b])
            = take (length m) ((buffer ctx)[length m := b]) @ [((buffer ctx)[length m := b]) ! length m]"
      using l bl by (simp add: take_Suc_conv_app_nth)
    then show ?thesis using p l bl by simp
  qed
  then have "holding ctx' (m @ [b]) t"
    unfolding holding_def ctx'_def using i i1 bl by simp
  then show ?thesis using r by (auto simp: ctx'_def)
qed

lemma idle_step:
  assumes "rx_state ctx = J1708_RX_IDLE" and "buffer_index ctx = 0"
    and "length (buffer ctx) = J1708_MAX_MESSAGE_LENGTH"
  shows "\<exists>ctx'. j1708_receive_byte ctx b t = (False, ctx') \<and> holding ctx' [b] t
           \<and> messages_received ctx' = messages_received ctx"
proof -
  define ctx' where "ctx' = ctx \<lparr> buffer := (buffer ctx)[unat (buffer_index ctx) := b],
                         buffer_index := buffer_index ctx + 1,
                         last_byte_time_ms := t,
                         rx_state := J1708_RX_RECEIVING \<rparr>"
  have r: "j1708_receive_byte ctx b t = (False, ctx')"
    unfolding ctx'_def using assms by (intro receive_store) (simp_all add: J1708_MAX_MESSAGE_LENGTH_def)
  have "take 1 ((buffer ctx)[0 := b]) = [b]"
    using assms(3) by (cases "buffer ctx") (simp_all add: J1708_MAX_MESSAGE_LENGTH_def)
  then have "holding ctx' [b] t"
    unfolding holding_def ctx'_def using assms by simp
  then show ?thesis using r by (auto simp: ctx'_def)
qed


lemma feed_run:
  assumes "holding ctx m t" and "within_gap t (map snd bts)"
    and "length m + length bts \<le> J1708_MAX_MESSAGE_LENGTH"
  shows "\<exists>ctx'. (\<forall>rest. feed_resubmit ctx (bts @ rest) = feed_resubmit ctx' rest)
           \<and> holding ctx' (m @ map fst bts) (last (t # map snd bts))
           \<and> messages_received ctx' = messages_received ctx"
  using assms
proof (induction bts arbitrary: ctx m t)
  case Nil
  then show ?case by auto
next
  case (Cons bt bts)
  obtain b u where bt: "bt = (b, u)" by (cases bt)
  from Cons.prems bt have g: "\<not> (u - t > J1708_INTER_BYTE_TIMEOUT_MS)" and w: "within_gap u (map snd bts)"
    and l: "length m < J1708_MAX_MESSAGE_LENGTH"
    and l': "length (m @ [b]) + length bts \<le> J1708_MAX_MESSAGE_LENGTH"
    by simp_all
  from holding_step[OF Cons.prems(1) g l, of b]
  obtain c1 where r: "j1708_receive_byte ctx b u = (False, c1)" and h1: "holding c1 (m @ [b]) u"
    and m1: "messages_received c1 = messages_received ctx" by blast
  from Cons.IH[OF h1 w l']
  obtain c2 where f: "\<forall>rest. feed_resubmit c1 (bts @ rest) = feed_resubmit c2 rest"
    and h2: "holding c2 ((m @ [b]) @ map fst bts) (last (u # map snd bts))"
    and m2: "messages_received c2 = messages_received c1" by blast
  have "\<forall>rest. feed_resubmit ctx ((bt # bts) @ rest) = feed_resubmit c2 rest"
    using r f by (simp add: bt)
  moreover have "holding c2 (m @ map fst (bt # bts)) (last (t # map snd (bt # bts)))"
    using h2 by (simp add: bt)
  ultimately show ?case using m1 m2 by auto
qed

lemma receive_gap:
  assumes h: "holding ctx m t0" and v: "valid_message m"
    and g: "t - t0 > J1708_INTER_BYTE_TIMEOUT_MS"
  shows "j1708_receive_byte ctx b t =
           (True, ctx \<lparr> rx_state := J1708_RX_COMPLETE, messages_received := messages_received ctx + 1 \<rparr>)"
proof -
  from h have s: "rx_state ctx = J1708_RX_RECEIVING" and i: "unat (buffer_index ctx) = length m"
    and p: "take (length m) (buffer ctx) = m" and lt: "last_byte_time_ms ctx = t0"
    by (simp_all add: holding_def)
  have ix: "buffer_index ctx = of_nat (length m)" by (rule unat_index[OF i])
  have "take (unat (buffer_index ctx)) (buffer ctx) = take (unat (buffer_index ctx)) m"
    using p i by simp
  from validate_prefix[OF this] v
  have c: "j1708_validate_checksum (buffer ctx) (buffer_index ctx)"
    by (simp add: valid_message_def ix[symmetric])
  have "J1708_MIN_MESSAGE_LENGTH \<le> unat (buffer_index ctx)"
    using v i by (simp add: valid_message_def)
  then show ?thesis
    using s g lt c by (simp add: j1708_receive_byte_def)
qed

lemma receive_complete:
  assumes "rx_state ctx = J1708_RX_COMPLETE"
  shows "j1708_receive_byte ctx b t = (True, ctx)"
  using assms by (simp add: j1708_receive_byte_def store_byte_def)

lemma parse_valid:
  assumes v: "valid_message m"
  shows "fst (j1708_parse_message m (of_nat (length m)) msg)"
proof -
  from v have "length m < 2 ^ LENGTH(8)" by (simp add: valid_message_def J1708_MAX_MESSAGE_LENGTH_def)
  then have u: "unat (of_nat (length m) :: 8 word) = length m" by (simp add: unat_of_nat)
  show ?thesis
    using v u by (simp add: j1708_parse_message_def valid_message_def Let_def)
qed

lemma get_complete:
  assumes s: "rx_state ctx = J1708_RX_COMPLETE" and i: "unat (buffer_index ctx) = length m"
    and p: "take (length m) (buffer ctx) = m" and v: "valid_message m"
  shows "j1708_get_message ctx msg =
           (True, snd (j1708_parse_message m (of_nat (length m)) msg),
            ctx \<lparr> rx_state := J1708_RX_IDLE, buffer_index := 0 \<rparr>)"
proof -
  have ix: "buffer_index ctx = of_nat (length m)" by (rule unat_index[OF i])
  have "take (unat (buffer_index ctx)) (buffer ctx) = take (unat (buffer_index ctx)) m"
    using p i by simp
  from parse_message_prefix[OF this]
  have e: "j1708_parse_message (buffer ctx) (buffer_index ctx) msg
             = j1708_parse_message m (of_nat (length m)) msg"
    by (simp add: ix[symmetric])
  show ?thesis
    using s parse_valid[OF v, of msg]
    by (auto simp: j1708_get_message_def e split: prod.splits)
qed

lemma feed_boundary:
  assumes h: "holding ctx m t0" and v: "valid_message m"
    and g: "t - t0 > J1708_INTER_BYTE_TIMEOUT_MS"
  shows "\<exists>ctx'. (\<forall>rest. feed_resubmit ctx ((b, t) # rest) =
                      (fst (feed_resubmit ctx' rest),
                       snd (j1708_parse_message m (of_nat (length m)) zero_message)
                         # snd (feed_resubmit ctx' rest)))
           \<and> holding ctx' [b] t
           \<and> messages_received ctx' = messages_received ctx + 1"
proof -
  let ?cC = "ctx \<lparr> rx_state := J1708_RX_COMPLETE, messages_received := messages_received ctx + 1 \<rparr>"
  let ?cI = "?cC \<lparr> rx_state := J1708_RX_IDLE, buffer_index := 0 \<rparr>"
  from h have i: "unat (buffer_index ctx) = length m"
    and p: "take (length m) (buffer ctx) = m" and bl: "length (buffer ctx) = J1708_MAX_MESSAGE_LENGTH"
    by (simp_all add: holding_def)
  have r: "j1708_receive_byte ctx b t = (True, ?cC)" by (rule receive_gap[OF h v g])
  have gm: "j1708_get_message ?cC zero_message =
           (True, snd (j1708_parse_message m (of_nat (length m)) zero_message), ?cI)"
    using i p by (intro get_complete[OF _ _ _ v]) simp_all
  from idle_step[of ?cI b t] bl
  obtain c' where r2: "j1708_receive_byte ?cI b t = (False, c')" and h': "holding c' [b] t"
    and m': "messages_received c' = messages_received ?cI" by auto
  have "\<forall>rest. feed_resubmit ctx ((b, t) # rest) =
                      (fst (feed_resubmit c' rest),
                       snd (j1708_parse_message m (of_nat (length m)) zero_message)
                         # snd (feed_resubmit c' rest))"
    using r gm r2 by (simp add: split: prod.splits)
  then show ?thesis using h' m' by auto
qed


lemma feed_message:
  assumes s: "rx_state ctx = J1708_RX_IDLE" and i: "buffer_index ctx = 0"
    and bl: "length (buffer ctx) = J1708_MAX_MESSAGE_LENGTH"
    and ne: "f \<noteq> []" and w: "within_gap (snd (hd f)) (map snd (tl f))"
    and l: "length f \<le> J1708_MAX_MESSAGE_LENGTH"
  shows "\<exists>ctx'. (\<forall>rest. feed_resubmit ctx (f @ rest) = feed_resubmit ctx' rest)
           \<and> holding ctx' (map fst f) (snd (last f))"
proof -
  from ne obtain b t f' where f: "f = (b, t) # f'" by (cases f) auto
  from idle_step[OF s i bl, of b t]
  obtain c1 where r: "j1708_receive_byte ctx b t = (False, c1)" and h1: "holding c1 [b] t"
    by blast
  from w l f have w': "within_gap t (map snd f')"
    and l': "length [b] + length f' \<le> J1708_MAX_MESSAGE_LENGTH" by simp_all
  from feed_run[OF h1 w' l']
  obtain c2 where g: "\<forall>rest. feed_resubmit c1 (f' @ rest) = feed_resubmit c2 rest"
    and h2: "holding c2 ([b] @ map fst f') (last (t # map snd f'))" by blast
  have "\<forall>rest. feed_resubmit ctx (f @ rest) = feed_resubmit c2 rest"
    using r g by (simp add: f)
  moreover have "last (t # map snd f') = snd (last f)"
    unfolding f by (simp add: last_map)
  then have "holding c2 (map fst f) (snd (last f))"
    using h2 by (simp add: f)
  ultimately show ?thesis by blast
qed

lemma feed_next:
  assumes h: "holding ctx m t0" and v: "valid_message m"
    and ne: "f \<noteq> []" and g: "snd (hd f) - t0 > J1708_INTER_BYTE_TIMEOUT_MS"
    and w: "within_gap (snd (hd f)) (map snd (tl f))"
    and l: "length f \<le> J1708_MAX_MESSAGE_LENGTH"
  shows "\<exists>ctx'. (\<forall>rest. feed_resubmit ctx (f @ rest) =
                      (fst (feed_resubmit ctx' rest),
                       snd (j1708_parse_message m (of_nat (length m)) zero_message)
                         # snd (feed_resubmit ctx' rest)))
           \<and> holding ctx' (map fst f) (snd (last f))"
proof -
  from ne obtain b t f' where f: "f = (b, t) # f'" by (cases f) auto
  from g f have g': "t - t0 > J1708_INTER_BYTE_TIMEOUT_MS" by simp
  from feed_boundary[OF h v g', of b]
  obtain c1 where r: "\<forall>rest. feed_resubmit ctx ((b, t) # rest) =
                      (fst (feed_resubmit c1 rest),
                       snd (j1708_parse_message m (of_nat (length m)) zero_message)
                         # snd (feed_resubmit c1 rest))"
    and h1: "holding c1 [b] t" by blast
  from w l f have w': "within_gap t (map snd f')"
    and l': "length [b] + length f' \<le> J1708_MAX_MESSAGE_LENGTH" by simp_all
  from feed_run[OF h1 w' l']
  obtain c2 where k: "\<forall>rest. feed_resubmit c1 (f' @ rest) = feed_resubmit c2 rest"
    and h2: "holding c2 ([b] @ map fst f') (last (t # map snd f'))" by blast
  have "\<forall>rest. feed_resubmit ctx (f @ rest) =
                      (fst (feed_resubmit c2 rest),
                       snd (j1708_parse_message m (of_nat (length m)) zero_message)
                         # snd (feed_resubmit c2 rest))"
  proof
    fix rest
    have "feed_resubmit ctx (f @ rest) = feed_resubmit ctx ((b, t) # (f' @ rest))"
      by (simp only: f append_Cons)
    also have "\<dots> = (fst (feed_resubmit c1 (f' @ rest)),
                       snd (j1708_parse_message m (of_nat (length m)) zero_message)
                         # snd (feed_resubmit c1 (f' @ rest)))"
      using r by blast
    finally show "feed_resubmit ctx (f @ rest) =
                      (fst (feed_resubmit c2 rest),
                       snd (j1708_parse_message m (of_nat (length m)) zero_message)
                         # snd (feed_resubmit c2 rest))"
      using k by simp
  qed
  moreover have "last (t # map snd f') = snd (last f)"
    unfolding f by (simp add: last_map)
  then have "holding c2 (map fst f) (snd (last f))"
    using h2 by (simp add: f)
  ultimately show ?thesis by blast
qed

lemma valid_message_length:
  assumes "valid_message (map fst f)"
  shows "f \<noteq> []" and "length f \<le> J1708_MAX_MESSAGE_LENGTH"
  using assms by (auto simp: valid_message_def J1708_MIN_MESSAGE_LENGTH_def)

lemma feed_two:
  assumes s: "rx_state ctx = J1708_RX_IDLE" and i: "buffer_index ctx = 0"
    and bl: "length (buffer ctx) = J1708_MAX_MESSAGE_LENGTH"
    and v1: "valid_message (map fst f1)" and v2: "valid_message (map fst f2)"
    and w1: "within_gap (snd (hd f1)) (map snd (tl f1))"
    and w2: "within_gap (snd (hd f2)) (map snd (tl f2))"
    and g: "snd (hd f2) - snd (last f1) > J1708_INTER_BYTE_TIMEOUT_MS"
  shows "\<exists>c1 c2. feed_resubmit ctx f1 = (c1, [])
           \<and> holding c1 (map fst f1) (snd (last f1))
           \<and> (\<forall>rest. feed_resubmit ctx (f1 @ f2 @ rest) =
                      (fst (feed_resubmit c2 rest),
                       snd (j1708_parse_message (map fst f1) (of_nat (length f1)) zero_message)
                         # snd (feed_resubmit c2 rest)))
           \<and> holding c2 (map fst f2) (snd (last f2))"
proof -
  note n1 = valid_message_length[OF v1] and n2 = valid_message_length[OF v2]
  from feed_message[OF s i bl n1(1) w1 n1(2)]
  obtain c1 where a: "\<forall>rest. feed_resubmit ctx (f1 @ rest) = feed_resubmit c1 rest"
    and h1: "holding c1 (map fst f1) (snd (last f1))" by blast
  from feed_next[OF h1 v1 n2(1) g w2 n2(2)]
  obtain c2 where b: "\<forall>rest. feed_resubmit c1 (f2 @ rest) =
                      (fst (feed_resubmit c2 rest),
                       snd (j1708_parse_message (map fst f1) (of_nat (length (map fst f1))) zero_message)
                         # snd (feed_resubmit c2 rest))"
    and h2: "holding c2 (map fst f2) (snd (last f2))" by blast
  have "feed_resubmit ctx (f1 @ []) = feed_resubmit c1 []" using a by blast
  then have e: "feed_resubmit ctx f1 = (c1, [])" by simp
  have "\<forall>rest. feed_resubmit ctx (f1 @ f2 @ rest) =
                      (fst (feed_resubmit c2 rest),
                       snd (j1708_parse_message (map fst f1) (of_nat (length f1)) zero_message)
                         # snd (feed_resubmit c2 rest))"
  proof
    fix rest
    have "feed_resubmit ctx (f1 @ f2 @ rest) = feed_resubmit c1 (f2 @ rest)" using a by blast
    also have "\<dots> = (fst (feed_resubmit c2 rest),
                       snd (j1708_parse_message (map fst f1) (of_nat (length (map fst f1))) zero_message)
                         # snd (feed_resubmit c2 rest))" using b by blast
    finally show "feed_resubmit ctx (f1 @ f2 @ rest) =
                      (fst (feed_resubmit c2 rest),
                       snd (j1708_parse_message (map fst f1) (of_nat (length f1)) zero_message)
                         # snd (feed_resubmit c2 rest))" by simp
  qed
  then show ?thesis using e h1 h2 by blast
qed

text \<open>
  Claim C6, as amended. The framer starts idle with an empty buffer. The bytes of two valid
  messages (2 to 21 bytes each, of sum 0 modulo 256) are fed with their arrival times, the
  bytes of one message at most 10 ms apart, the first byte of the second message more than
  10 ms after the last byte of the first. On that gap-crossing byte \<open>j1708_receive_byte\<close>
  returns true and moves to the complete state, leaving buffer and index as they were (the
  byte is not consumed); in the complete state every further byte is answered with true and
  changes nothing, until \<open>j1708_get_message\<close> decodes the first message and returns to
  idle. The second message is decoded in the same way once a further byte arrives more
  than 10 ms after its last byte: with a caller that submits each deferred byte again, the
  decoded messages are exactly the two messages, in order.
\<close>

theorem framer_two_messages:
  assumes s: "rx_state ctx = J1708_RX_IDLE" and i: "buffer_index ctx = 0"
    and bl: "length (buffer ctx) = J1708_MAX_MESSAGE_LENGTH"
    and v1: "valid_message (map fst f1)" and v2: "valid_message (map fst f2)"
    and w1: "within_gap (snd (hd f1)) (map snd (tl f1))"
    and w2: "within_gap (snd (hd f2)) (map snd (tl f2))"
    and g: "snd (hd f2) - snd (last f1) > J1708_INTER_BYTE_TIMEOUT_MS"
    and g3: "t3 - snd (last f2) > J1708_INTER_BYTE_TIMEOUT_MS"
  shows "snd (feed_resubmit ctx (f1 @ f2 @ [(x, t3)])) =
           [snd (j1708_parse_message (map fst f1) (of_nat (length f1)) zero_message),
            snd (j1708_parse_message (map fst f2) (of_nat (length f2)) zero_message)]
         \<and> (let c1 = fst (feed_resubmit ctx f1);
                 c2 = c1 \<lparr> rx_state := J1708_RX_COMPLETE,
                            messages_received := messages_received c1 + 1 \<rparr>
             in j1708_receive_byte c1 (fst (hd f2)) (snd (hd f2)) = (True, c2)
                \<and> (\<forall>b t. j1708_receive_byte c2 b t = (True, c2))
                \<and> j1708_get_message c2 zero_message =
                    (True,
                     snd (j1708_parse_message (map fst f1) (of_nat (length f1)) zero_message),
                     c2 \<lparr> rx_state := J1708_RX_IDLE, buffer_index := 0 \<rparr>))"
proof -
  from feed_two[OF s i bl v1 v2 w1 w2 g]
  obtain c1 c2 where e: "feed_resubmit ctx f1 = (c1, [])"
    and h1: "holding c1 (map fst f1) (snd (last f1))"
    and a: "\<forall>rest. feed_resubmit ctx (f1 @ f2 @ rest) =
                      (fst (feed_resubmit c2 rest),
                       snd (j1708_parse_message (map fst f1) (of_nat (length f1)) zero_message)
                         # snd (feed_resubmit c2 rest))"
    and h2: "holding c2 (map fst f2) (snd (last f2))" by blast
  from feed_boundary[OF h2 v2 g3, of x]
  obtain c3 where b: "\<forall>rest. feed_resubmit c2 ((x, t3) # rest) =
                      (fst (feed_resubmit c3 rest),
                       snd (j1708_parse_message (map fst f2) (of_nat (length (map fst f2))) zero_message)
                         # snd (feed_resubmit c3 rest))" by blast
  have "feed_resubmit c2 [(x, t3)] =
                      (fst (feed_resubmit c3 []),
                       snd (j1708_parse_message (map fst f2) (of_nat (length (map fst f2))) zero_message)
                         # snd (feed_resubmit c3 []))" using b by blast
  then have b': "snd (feed_resubmit c2 [(x, t3)]) =
      [snd (j1708_parse_message (map fst f2) (of_nat (length f2)) zero_message)]"
    by simp
  have "feed_resubmit ctx (f1 @ f2 @ [(x, t3)]) =
                      (fst (feed_resubmit c2 [(x, t3)]),
                       snd (j1708_parse_message (map fst f1) (of_nat (length f1)) zero_message)
                         # snd (feed_resubmit c2 [(x, t3)]))" using a by blast
  then have p1: "snd (feed_resubmit ctx (f1 @ f2 @ [(x, t3)])) =
           [snd (j1708_parse_message (map fst f1) (of_nat (length f1)) zero_message),
            snd (j1708_parse_message (map fst f2) (of_nat (length f2)) zero_message)]"
    by (simp only: b' snd_conv)
  let ?cC = "c1 \<lparr> rx_state := J1708_RX_COMPLETE, messages_received := messages_received c1 + 1 \<rparr>"
  have c1: "fst (feed_resubmit ctx f1) = c1" using e by simp
  from h1 have ix: "unat (buffer_index c1) = length (map fst f1)"
    and p: "take (length (map fst f1)) (buffer c1) = map fst f1"
    by (simp_all add: holding_def)
  have r: "j1708_receive_byte c1 (fst (hd f2)) (snd (hd f2)) = (True, ?cC)"
    by (rule receive_gap[OF h1 v1 g])
  have k: "\<forall>b t. j1708_receive_byte ?cC b t = (True, ?cC)"
    by (simp add: receive_complete)
  have "j1708_get_message ?cC zero_message =
           (True, snd (j1708_parse_message (map fst f1) (of_nat (length (map fst f1))) zero_message),
            ?cC \<lparr> rx_state := J1708_RX_IDLE, buffer_index := 0 \<rparr>)"
    using ix p by (intro get_complete[OF _ _ _ v1]) simp_all
  then have gm: "j1708_get_message ?cC zero_message =
           (True, snd (j1708_parse_message (map fst f1) (of_nat (length f1)) zero_message),
            ?cC \<lparr> rx_state := J1708_RX_IDLE, buffer_index := 0 \<rparr>)"
    by simp
  show ?thesis
    unfolding Let_def c1 using p1 r k gm by blast
qed

lemma ex_valid: "valid_message (map fst j1708_ex1)" "valid_message (map fst j1708_ex2)"
  by (simp_all add: valid_message_def j1708_ex1_def j1708_ex2_def J1708_MIN_MESSAGE_LENGTH_def
      J1708_MAX_MESSAGE_LENGTH_def j1708_validate_checksum_def byte_sum_def)

lemma ex_gaps:
  "within_gap (snd (hd j1708_ex1)) (map snd (tl j1708_ex1))"
  "within_gap (snd (hd j1708_ex2)) (map snd (tl j1708_ex2))"
  "snd (hd j1708_ex2) - snd (last j1708_ex1) > J1708_INTER_BYTE_TIMEOUT_MS"
  "200 - snd (last j1708_ex2) > J1708_INTER_BYTE_TIMEOUT_MS"
  by (simp_all add: j1708_ex1_def j1708_ex2_def J1708_INTER_BYTE_TIMEOUT_MS_def)

lemma init_idle:
  "rx_state j1708_parser_init = J1708_RX_IDLE" "buffer_index j1708_parser_init = 0"
  "length (buffer j1708_parser_init) = J1708_MAX_MESSAGE_LENGTH"
  by (simp_all add: j1708_parser_init_def)

text \<open>
  The hypotheses of \<open>framer_two_messages\<close> hold for the two example messages followed by
  one byte at time 200.
\<close>

theorem framer_two_messages_witness:
  "rx_state j1708_parser_init = J1708_RX_IDLE \<and> buffer_index j1708_parser_init = 0
   \<and> length (buffer j1708_parser_init) = J1708_MAX_MESSAGE_LENGTH
   \<and> valid_message (map fst j1708_ex1) \<and> valid_message (map fst j1708_ex2)
   \<and> within_gap (snd (hd j1708_ex1)) (map snd (tl j1708_ex1))
   \<and> within_gap (snd (hd j1708_ex2)) (map snd (tl j1708_ex2))
   \<and> snd (hd j1708_ex2) - snd (last j1708_ex1) > J1708_INTER_BYTE_TIMEOUT_MS
   \<and> 200 - snd (last j1708_ex2) > J1708_INTER_BYTE_TIMEOUT_MS
   \<and> snd (feed_resubmit j1708_parser_init (j1708_ex1 @ j1708_ex2 @ [(128, 200)])) =
           [snd (j1708_parse_message (map fst j1708_ex1) (of_nat (length j1708_ex1)) zero_message),
            snd (j1708_parse_message (map fst j1708_ex2) (of_nat (length j1708_ex2)) zero_message)]"
  using framer_two_messages[OF init_idle ex_valid ex_gaps, of 128, THEN conjunct1]
    init_idle ex_valid ex_gaps
  by simp

text \<open>
  Claim C6 as stated fails: the framer has no timer of its own, so after the bytes of the
  two example messages alone (the deferred byte submitted again) only the first message
  has been decoded; the four bytes of the second are still in the buffer, in the receiving
  state.
\<close>

theorem framer_second_message_pending:
  "snd (feed_resubmit j1708_parser_init (j1708_ex1 @ j1708_ex2)) =
     [snd (j1708_parse_message [128, 110, 212, 62] 4 zero_message)]
   \<and> rx_state (fst (feed_resubmit j1708_parser_init (j1708_ex1 @ j1708_ex2))) = J1708_RX_RECEIVING
   \<and> take 4 (buffer (fst (feed_resubmit j1708_parser_init (j1708_ex1 @ j1708_ex2))))
       = [128, 84, 120, 180]"
proof -
  from feed_two[OF init_idle ex_valid ex_gaps(1,2,3)]
  obtain c2 where a: "\<forall>rest. feed_resubmit j1708_parser_init (j1708_ex1 @ j1708_ex2 @ rest) =
                      (fst (feed_resubmit c2 rest),
                       snd (j1708_parse_message (map fst j1708_ex1) (of_nat (length j1708_ex1)) zero_message)
                         # snd (feed_resubmit c2 rest))"
    and h2: "holding c2 (map fst j1708_ex2) (snd (last j1708_ex2))" by blast
  have "feed_resubmit j1708_parser_init (j1708_ex1 @ j1708_ex2 @ []) =
                      (fst (feed_resubmit c2 []),
                       snd (j1708_parse_message (map fst j1708_ex1) (of_nat (length j1708_ex1)) zero_message)
                         # snd (feed_resubmit c2 []))" using a by blast
  then have e: "feed_resubmit j1708_parser_init (j1708_ex1 @ j1708_ex2) =
      (c2, [snd (j1708_parse_message (map fst j1708_ex1) (of_nat (length j1708_ex1)) zero_message)])"
    by simp
  have m: "map fst j1708_ex1 = [128, 110, 212, 62]" "(of_nat (length j1708_ex1) :: 8 word) = 4"
    by (simp_all add: j1708_ex1_def)
  have l2: "length (map fst j1708_ex2) = 4" "map fst j1708_ex2 = [128, 84, 120, 180]"
    by (simp_all add: j1708_ex2_def)
  from h2 have st: "rx_state c2 = J1708_RX_RECEIVING"
    and hh: "take (length (map fst j1708_ex2)) (buffer c2) = map fst j1708_ex2"
    by (simp_all only: holding_def)
  note st hh[unfolded l2(1), unfolded l2(2)]
  then show ?thesis unfolding e m by simp
qed


text \<open>
  The receive loop of \<open>j1708_task\<close> in main.cpp does not submit the deferred byte again.
  On the two example messages followed by one byte at time 200 it decodes one message
  only: the second message loses its first byte and is dropped as a checksum error.
\<close>

lemma j1708_task_drops_deferred_byte:
  "length (snd (j1708_task j1708_parser_init (j1708_ex1 @ j1708_ex2 @ [(128, 200)]))) = 1
   \<and> checksum_errors (fst (j1708_task j1708_parser_init (j1708_ex1 @ j1708_ex2 @ [(128, 200)]))) = 1"
  by code_simp
end
